theory Spec2Isabelle
  imports Complex_Main
begin

section \<open>Python values and errors\<close>

text \<open>
  The notebook computes with Python floats, which are IEEE doubles. A double is modelled by
  the real number it denotes; infinities and NaN are outside the model. Every arithmetic
  expression keeps the shape the source gives it, and each operation rounds its exact
  result to a double. An exception is a value of \<open>py_error\<close>.
\<close>

datatype py_error = ZeroDivisionError | RuntimeError | ValueError | IndexError | NameError

type_synonym point = "real \<times> real \<times> real"

type_synonym field = "real list"

text \<open>\<open>range(n)\<close>: empty when \<open>n \<le> 0\<close>.\<close>

definition py_range :: "int \<Rightarrow> int list" where
  "py_range n = map int [0..<nat n]"

section \<open>Double-precision arithmetic\<close>

text \<open>
  Rounding to the nearest double, ties to even. \<open>binade x\<close> is the exponent \<open>e\<close> with
  \<open>2^e \<le> |x| < 2^(e+1)\<close>, kept within the range of normal doubles (\<open>- 1022\<close> for the
  subnormal numbers and zero); the spacing of doubles there is \<open>2^(e - 52)\<close>, and
  \<open>double_round\<close> takes the nearest multiple of it. A result of magnitude \<open>2^1024\<close> or
  more, where the machine gives an infinity, is outside the model.
\<close>

definition round_half_even :: "real \<Rightarrow> int" where
  "round_half_even q =
     (let f = \<lfloor>q\<rfloor>; d = q - of_int f
      in if d < 1 / 2 then f else if 1 / 2 < d then f + 1 else if even f then f else f + 1)"

fun binade_from :: "nat \<Rightarrow> real \<Rightarrow> int" where
  "binade_from 0 a = - 1022"
| "binade_from (Suc k) a =
     (if 2 powi (int (Suc k) - 1022) \<le> a then int (Suc k) - 1022 else binade_from k a)"

definition binade :: "real \<Rightarrow> int" where
  "binade x = binade_from 2045 \<bar>x\<bar>"

definition double_round :: "real \<Rightarrow> real" where
  "double_round x =
     of_int (round_half_even (x / 2 powi (binade x - 52))) * 2 powi (binade x - 52)"

text \<open>The operations of the machine: the exact result, rounded once.\<close>

definition fl_add :: "real \<Rightarrow> real \<Rightarrow> real" where
  "fl_add x y = double_round (x + y)"

definition fl_sub :: "real \<Rightarrow> real \<Rightarrow> real" where
  "fl_sub x y = double_round (x - y)"

definition fl_mul :: "real \<Rightarrow> real \<Rightarrow> real" where
  "fl_mul x y = double_round (x * y)"

definition fl_div :: "real \<Rightarrow> real \<Rightarrow> real" where
  "fl_div x y = double_round (x / y)"

definition fl_sqrt :: "real \<Rightarrow> real" where
  "fl_sqrt x = double_round (sqrt x)"

text \<open>An \<open>int\<close> operand of a float operation is first converted to the nearest double;
  a float literal denotes the double nearest to its decimal value.\<close>

definition fl_of_int :: "int \<Rightarrow> real" where
  "fl_of_int k = double_round (of_int k)"

text \<open>The number that \<open>'%f' % x\<close> shows: \<open>x\<close> to six decimal places, rounded to the
  nearest, ties to even.\<close>

definition percent_f :: "real \<Rightarrow> real" where
  "percent_f x = of_int (round_half_even (x * 1000000)) / 1000000"

section \<open>The helper functions of the notebook: point samplers\<close>

text \<open>A function space is represented by what the samplers read from it: the table
  returned by \<open>tabulate_dof_coordinates()\<close>, one row per degree of freedom.\<close>

datatype fspace = FunctionSpace (tabulate_dof_coordinates: "point list")

text \<open>The slice \<open>a[::k]\<close>: rows 0, k, 2k, ...\<close>

fun stride :: "nat \<Rightarrow> 'a list \<Rightarrow> 'a list" where
  "stride k [] = []"
| "stride k (x # xs) = x # stride k (drop (k - 1) xs)"

text \<open>\<open>coords - pos\<close> on one row, and \<open>np.linalg.norm(\<dots>, axis = 1)\<close> on one row: the
  square root of the sum, taken from left to right, of the squares, each operation in
  double precision.\<close>

fun sub3 :: "point \<Rightarrow> point \<Rightarrow> point" where
  "sub3 (a, b, c) (x, y, z) = (fl_sub a x, fl_sub b y, fl_sub c z)"

fun norm3 :: "point \<Rightarrow> real" where
  "norm3 (x, y, z) = fl_sqrt (fl_add (fl_add (fl_mul x x) (fl_mul y y)) (fl_mul z z))"

text \<open>The Euclidean distance of two points, in exact arithmetic.\<close>

fun euclid :: "point \<Rightarrow> point \<Rightarrow> real" where
  "euclid (a, b, c) (x, y, z) = sqrt ((a - x) * (a - x) + (b - y) * (b - y) + (c - z) * (c - z))"

text \<open>\<open>np.argmin\<close>: the first index of the least entry; ValueError on an empty array.\<close>

fun argmin_from :: "real list \<Rightarrow> nat \<Rightarrow> real \<Rightarrow> nat \<Rightarrow> nat" where
  "argmin_from [] i best bi = bi"
| "argmin_from (x # xs) i best bi =
     (if x < best then argmin_from xs (Suc i) x i else argmin_from xs (Suc i) best bi)"

definition argmin :: "real list \<Rightarrow> py_error + nat" where
  "argmin xs = (case xs of [] \<Rightarrow> Inl ValueError | x # rest \<Rightarrow> Inr (argmin_from rest 1 x 0))"

text \<open>\<open>a.reshape((-1, k))[i, c]\<close>: the reshape raises ValueError unless \<open>k\<close> divides the
  size; the row-major entry \<open>(i, c)\<close> is entry \<open>i * k + c\<close> of the flat array; a negative
  column index counts from the end; an index out of range raises IndexError.\<close>

definition reshape_index :: "nat \<Rightarrow> real list \<Rightarrow> nat \<Rightarrow> int \<Rightarrow> py_error + real" where
  "reshape_index k a i c =
     (if length a mod k \<noteq> 0 then Inl ValueError
      else let c' = (if c < 0 then c + int k else c) in
        if length a div k \<le> i \<or> c' < 0 \<or> int k \<le> c' then Inl IndexError
        else Inr (a ! (i * k + nat c')))"

text \<open>\<open>get_stress(Z, P, pos, component)\<close>. The argument \<open>P_local\<close> stands for
  \<open>project(P, Z).vector().get_local()\<close>, computed by the finite-element library.\<close>

definition get_stress :: "fspace \<Rightarrow> real list \<Rightarrow> point \<Rightarrow> int \<Rightarrow> py_error + real" where
  "get_stress Z P_local pos component =
     (let coords = stride 9 (tabulate_dof_coordinates Z) in
      case argmin (map (\<lambda>c. norm3 (sub3 c pos)) coords) of
        Inl e \<Rightarrow> Inl e
      | Inr dof_ind \<Rightarrow> reshape_index 9 P_local dof_ind component)"

text \<open>\<open>get_disp(V, u, pos, component)\<close>, with \<open>u_local\<close> for \<open>u.vector().get_local()\<close>.\<close>

definition get_disp :: "fspace \<Rightarrow> real list \<Rightarrow> point \<Rightarrow> int \<Rightarrow> py_error + real" where
  "get_disp V u_local pos component =
     (let coords = stride 3 (tabulate_dof_coordinates V) in
      case argmin (map (\<lambda>c. norm3 (sub3 c pos)) coords) of
        Inl e \<Rightarrow> Inl e
      | Inr dof_ind \<Rightarrow> reshape_index 3 u_local dof_ind component)"

section \<open>The finite-element library as an injected capability\<close>

text \<open>
  Mesh generation, assembly, projection and the Newton solve belong to dolfin. What the
  notebook relies on is taken as a parameter: \<open>solve(G == 0, u, bcs, J=dG)\<close> reads the
  problem (mesh, function space, material model), the current value of the load constant
  that the boundary data refer to, and the field \<open>u\<close> as initial guess; it either
  converges and leaves the solution in \<open>u\<close>, or raises RuntimeError and leaves its last
  iterate in \<open>u\<close>. The expressions the notebook leaves blank for the reader (the
  deformation gradient, the strain energies) are taken as filled in: the material model
  is a value of the type parameter \<open>'w\<close>.
\<close>

datatype load = Displacement point | Pressure real

datatype solve_result = Converged field | NotConverged field

record ('m, 'w) dolfin =
  BoxMesh_create :: "int \<Rightarrow> int \<Rightarrow> int \<Rightarrow> 'm"
  VectorFunctionSpace :: "'m \<Rightarrow> fspace"
  solve :: "'m \<Rightarrow> fspace \<Rightarrow> 'w \<Rightarrow> load \<Rightarrow> field \<Rightarrow> solve_result"
  project :: "'m \<Rightarrow> fspace \<Rightarrow> 'w \<Rightarrow> field \<Rightarrow> real list"

section \<open>The notebook's global namespace\<close>

text \<open>
  One record for the module-level variables the cells share. \<open>material\<close> stands for the
  strain energy with its parameters and the forms derived from it. \<open>stdout\<close> keeps the
  numbers each \<open>print\<close> shows; \<open>solver_calls\<close> is a history of the calls made to the
  library's \<open>solve\<close> (load, initial guess, outcome), which the program itself cannot read.
\<close>

record ('m, 'w) notebook =
  mesh :: 'm
  V :: fspace
  Z :: fspace
  material :: 'w
  r :: point
  pressure :: real
  u :: field
  disp_neo :: "real list"
  stress_neo :: "real list"
  total_force :: "real option"
  stdout :: "(int \<times> int \<times> real) list"
  solver_calls :: "(load \<times> field \<times> solve_result) list"

type_synonym ('m, 'w) outcome = "(py_error \<times> ('m, 'w) notebook) + ('m, 'w) notebook"

text \<open>The namespace as a cell leaves it, whether it finished or raised.\<close>

fun final :: "('e \<times> 's) + 's \<Rightarrow> 's" where
  "final (Inl (e, s)) = s"
| "final (Inr s) = s"

text \<open>What a cell raised, if anything.\<close>

definition raised :: "('e \<times> 's) + 's \<Rightarrow> 'e option" where
  "raised res = (case res of Inl (e, s) \<Rightarrow> Some e | Inr s \<Rightarrow> None)"

text \<open>Reading the history of solver calls: the load, the initial guess and the outcome of
  one call, the field a call leaves in \<open>u\<close>, and the calls a cell added to the history.\<close>

type_synonym solver_call = "load \<times> field \<times> solve_result"

definition call_load :: "solver_call \<Rightarrow> load" where
  "call_load c = fst c"

definition call_guess :: "solver_call \<Rightarrow> field" where
  "call_guess c = fst (snd c)"

definition call_result :: "solver_call \<Rightarrow> solve_result" where
  "call_result c = snd (snd c)"

fun result_field :: "solve_result \<Rightarrow> field" where
  "result_field (Converged f) = f"
| "result_field (NotConverged f) = f"

fun has_converged :: "solve_result \<Rightarrow> bool" where
  "has_converged (Converged f) = True"
| "has_converged (NotConverged f) = False"

definition new_calls :: "('m, 'w) notebook \<Rightarrow> ('m, 'w) outcome \<Rightarrow> solver_call list" where
  "new_calls s res = drop (length (solver_calls s)) (solver_calls (final res))"

text \<open>A history is warm-started from \<open>f\<close> when its first call starts from \<open>f\<close> and every
  later call starts from the field the call before it left.\<close>

fun warm :: "field \<Rightarrow> solver_call list \<Rightarrow> bool" where
  "warm f [] = True"
| "warm f (c # cs) = (call_guess c = f \<and> warm (result_field (call_result c)) cs)"

definition end_field :: "field \<Rightarrow> solver_call list \<Rightarrow> field" where
  "end_field f cs = (if cs = [] then f else result_field (call_result (last cs)))"

text \<open>A \<open>for\<close> loop whose body may raise: the exception leaves the loop at once.\<close>

fun for_loop :: "(int \<Rightarrow> 's \<Rightarrow> 'e + 's) \<Rightarrow> int list \<Rightarrow> 's \<Rightarrow> 'e + 's" where
  "for_loop body [] s = Inr s"
| "for_loop body (i # rest) s =
     (case body i s of Inl e \<Rightarrow> Inl e | Inr s' \<Rightarrow> for_loop body rest s')"

text \<open>\<open>print('%i/%i, \<dots> = %f' % (a, b, x))\<close>.\<close>

definition print_step :: "int \<Rightarrow> int \<Rightarrow> real \<Rightarrow> ('m, 'w) notebook \<Rightarrow> ('m, 'w) notebook" where
  "print_step a b x s = s\<lparr>stdout := stdout s @ [(a, b, percent_f x)]\<rparr>"

definition call_solve :: "('m, 'w) dolfin \<Rightarrow> load \<Rightarrow> ('m, 'w) notebook \<Rightarrow> ('m, 'w) outcome" where
  "call_solve fe ld s =
     (case solve fe (mesh s) (V s) (material s) ld (u s) of
        Converged f \<Rightarrow>
          Inr (s\<lparr>u := f, solver_calls := solver_calls s @ [(ld, u s, Converged f)]\<rparr>)
      | NotConverged f \<Rightarrow>
          Inl (RuntimeError,
               s\<lparr>u := f, solver_calls := solver_calls s @ [(ld, u s, NotConverged f)]\<rparr>))"

section \<open>Cell 29: load stepping for the neo-Hookean bar\<close>

text \<open>One pass through the loop body, for loop index \<open>i\<close>.\<close>

definition neo_step ::
  "('m, 'w) dolfin \<Rightarrow> int \<Rightarrow> real \<Rightarrow> int \<Rightarrow> ('m, 'w) notebook \<Rightarrow> ('m, 'w) outcome" where
  "neo_step fe n_steps increment i s =
     (let s1 = print_step (i + 1) n_steps (fl_mul increment (fl_of_int (i + 1))) s;
          s2 = s1\<lparr>r := (fl_mul increment (fl_of_int (i + 1)), 0, 0)\<rparr>
      in case call_solve fe (Displacement (r s2)) s2 of
           Inl e \<Rightarrow> Inl e
         | Inr s3 \<Rightarrow>
             (let s4 = s3\<lparr>disp_neo := disp_neo s3 @ [fl_mul increment (fl_of_int (i + 1))]\<rparr>
              in
              case get_stress (Z s4) (project fe (mesh s4) (Z s4) (material s4) (u s4))
                     (5, 0.5, 0.5) 0 of
                Inl e \<Rightarrow> Inl (e, s4)
              | Inr v \<Rightarrow> Inr (s4\<lparr>stress_neo := stress_neo s4 @ [v]\<rparr>)))"

text \<open>The whole cell, with \<open>n_steps\<close> and \<open>max_disp\<close> as parameters: the reset of \<open>u\<close>,
  the division (Python raises ZeroDivisionError on a zero divisor), the two fresh lists
  and the loop. The closing \<open>plot_beam\<close> draws and changes nothing.\<close>

definition load_stepping ::
  "('m, 'w) dolfin \<Rightarrow> int \<Rightarrow> real \<Rightarrow> ('m, 'w) notebook \<Rightarrow> ('m, 'w) outcome" where
  "load_stepping fe n_steps max_disp s =
     (let zeros = map (\<lambda>_. 0) (u s);
          s1 = s\<lparr>u := zeros\<rparr>
      in if n_steps = 0 then Inl (ZeroDivisionError, s1)
         else
           let increment = fl_div max_disp (fl_of_int n_steps);
               s2 = s1\<lparr>disp_neo := [0], stress_neo := [0]\<rparr>
           in for_loop (neo_step fe n_steps increment) (py_range n_steps) s2)"

definition cell29 :: "('m, 'w) dolfin \<Rightarrow> ('m, 'w) notebook \<Rightarrow> ('m, 'w) outcome" where
  "cell29 fe s = load_stepping fe 10 10 s"

section \<open>Cells 41 and 43: the pressure-loaded benchmark\<close>




section \<open>Cell 45: \<open>refine_benchmark\<close>\<close>

text \<open>
  The function calls \<open>def_grad\<close> (cell 10) and \<open>W_guccione\<close> (cell 33) before anything
  else is set up. Both cells have blanks for the reader: as shipped, \<open>def_grad\<close> returns
  \<open>None\<close> and \<open>W_guccione\<close> raises. They are taken as the notebook has them at the time
  of the call, whatever the reader made of them: two functions that return a value or raise.
\<close>

record ('f, 'w) exercise =
  def_grad :: "field \<Rightarrow> py_error + 'f"
  W_guccione :: "'f \<Rightarrow> py_error + 'w"

text \<open>The local variables the loop of \<open>refine_benchmark\<close> works on, and \<open>solves\<close>, the
  history of the calls it makes to the library's \<open>solve\<close>.\<close>

record frame =
  pressure_local :: real
  u_local :: field
  pressures :: "real list"
  disp :: "real list"
  solves :: "solver_call list"

text \<open>The loop body reads the global \<open>total_force\<close> (NameError when no cell has defined
  it), never the local \<open>total_pressure\<close>.\<close>

definition refine_step ::
  "('m, 'w) dolfin \<Rightarrow> 'm \<Rightarrow> fspace \<Rightarrow> 'w \<Rightarrow> real option \<Rightarrow> int \<Rightarrow> int \<Rightarrow> frame
     \<Rightarrow> (py_error \<times> frame) + frame" where
  "refine_step fe mesh_local V_local W g_total_force steps i l =
     (case g_total_force of
        None \<Rightarrow> Inl (NameError, l)
      | Some tf \<Rightarrow>
          (let current_pressure = fl_mul (fl_div tf (fl_of_int steps)) (fl_of_int (i + 1));
               l1 = l\<lparr>pressure_local := current_pressure\<rparr>;
               ld = Pressure (pressure_local l1)
           in case solve fe mesh_local V_local W ld (u_local l1) of
                NotConverged f \<Rightarrow>
                  Inl (RuntimeError,
                       l1\<lparr>u_local := f,
                          solves := solves l1 @ [(ld, u_local l1, NotConverged f)]\<rparr>)
              | Converged f \<Rightarrow>
                  (let l2 = l1\<lparr>u_local := f,
                                solves := solves l1 @ [(ld, u_local l1, Converged f)]\<rparr>;
                       l3 = l2\<lparr>pressures := pressures l2 @ [current_pressure]\<rparr>
                   in case get_disp V_local (u_local l3) (10, 0.5, 1.0) 2 of
                        Inl e \<Rightarrow> Inl (e, l3)
                      | Inr d \<Rightarrow> Inr (l3\<lparr>disp := disp l3 @ [d]\<rparr>))))"

text \<open>The body of \<open>refine_benchmark(nx, ny, nz)\<close> up to its \<open>return\<close>, with the value
  assigned to the local \<open>total_pressure\<close> as a parameter; the source assigns 0.004. A new
  \<open>Function(V)\<close> is zero. The statements between \<open>W_guccione\<close> and the loop build forms
  and boundary conditions inside the library; \<open>plot_beam\<close> draws and changes nothing.\<close>

definition refine_benchmark_run ::
  "real \<Rightarrow> ('m, 'w) dolfin \<Rightarrow> ('f, 'w) exercise \<Rightarrow> real option \<Rightarrow> int \<Rightarrow> int \<Rightarrow> int
     \<Rightarrow> (py_error \<times> frame) + frame" where
  "refine_benchmark_run total_pressure fe ex g_total_force nx ny nz =
     (let mesh_local = BoxMesh_create fe nx ny nz;
          V_local = VectorFunctionSpace fe mesh_local;
          u0 = map (\<lambda>_. 0) (tabulate_dof_coordinates V_local);
          l0 = \<lparr>pressure_local = 0.0, u_local = u0, pressures = [], disp = [], solves = []\<rparr>
      in case def_grad ex u0 of
           Inl e \<Rightarrow> Inl (e, l0)
         | Inr F \<Rightarrow>
             (case W_guccione ex F of
                Inl e \<Rightarrow> Inl (e, l0)
              | Inr W \<Rightarrow>
                  (let steps = 10;
                       l1 = l0\<lparr>pressures := [0], disp := [0]\<rparr>
                   in for_loop (refine_step fe mesh_local V_local W g_total_force steps)
                        (py_range steps) l1)))"

text \<open>What the function gives back, \<open>disp, pressures\<close> or the exception, and the solver
  calls it made.\<close>

definition refine_benchmark_with ::
  "real \<Rightarrow> ('m, 'w) dolfin \<Rightarrow> ('f, 'w) exercise \<Rightarrow> real option \<Rightarrow> int \<Rightarrow> int \<Rightarrow> int
     \<Rightarrow> py_error + (real list \<times> real list)" where
  "refine_benchmark_with total_pressure fe ex g_total_force nx ny nz =
     (case refine_benchmark_run total_pressure fe ex g_total_force nx ny nz of
        Inl (e, l) \<Rightarrow> Inl e
      | Inr l \<Rightarrow> Inr (disp l, pressures l))"

definition refine_benchmark_calls_with ::
  "real \<Rightarrow> ('m, 'w) dolfin \<Rightarrow> ('f, 'w) exercise \<Rightarrow> real option \<Rightarrow> int \<Rightarrow> int \<Rightarrow> int
     \<Rightarrow> solver_call list" where
  "refine_benchmark_calls_with total_pressure fe ex g_total_force nx ny nz =
     solves (final (refine_benchmark_run total_pressure fe ex g_total_force nx ny nz))"

text \<open>The function as the source has it, with \<open>total_pressure = 0.004\<close>.\<close>

definition refine_benchmark ::
  "('m, 'w) dolfin \<Rightarrow> ('f, 'w) exercise \<Rightarrow> real option \<Rightarrow> int \<Rightarrow> int \<Rightarrow> int
     \<Rightarrow> py_error + (real list \<times> real list)" where
  "refine_benchmark = refine_benchmark_with (double_round 0.004)"

definition refine_benchmark_calls ::
  "('m, 'w) dolfin \<Rightarrow> ('f, 'w) exercise \<Rightarrow> real option \<Rightarrow> int \<Rightarrow> int \<Rightarrow> int
     \<Rightarrow> solver_call list" where
  "refine_benchmark_calls = refine_benchmark_calls_with (double_round 0.004)"

section \<open>Concrete instances\<close>

text \<open>A function space with \<open>k\<close> degrees of freedom at each of the given nodes; a vector
  space whose second node is the tip \<open>(10, 0.5, 1)\<close>, and a tensor space whose second node
  is the centre \<open>(5, 0.5, 0.5)\<close>.\<close>

definition demo_space :: "nat \<Rightarrow> point list \<Rightarrow> fspace" where
  "demo_space k nodes = FunctionSpace (concat (map (replicate k) nodes))"

definition demo_V :: fspace where
  "demo_V = demo_space 3 [(7, 4.5, 1), (10, 0.5, 1)]"

definition demo_Z :: fspace where
  "demo_Z = demo_space 9 [(0, 0.5, 0.5), (5, 0.5, 0.5)]"

text \<open>A library whose solver always converges (it shifts the field by the load), one whose
  solver gives up above a displacement of 2, a namespace over the two-node spaces in
  which an earlier solve has left a non-zero field, and the two exercise cells completed.\<close>

definition demo_fe :: "(unit, unit) dolfin" where
  "demo_fe =
     \<lparr>BoxMesh_create = (\<lambda>nx ny nz. ()),
      VectorFunctionSpace = (\<lambda>m. demo_V),
      solve = (\<lambda>m Vs w ld f.
         case ld of
           Displacement (a, b, c) \<Rightarrow> Converged (map (\<lambda>x. x + a) f)
         | Pressure p \<Rightarrow> Converged (map (\<lambda>x. x + p + 1) f)),
      project = (\<lambda>m Zs w f. replicate 9 (sum_list f) @ replicate 9 (2 * sum_list f))\<rparr>"

definition demo_fe_limited :: "(unit, unit) dolfin" where
  "demo_fe_limited =
     demo_fe\<lparr>solve := (\<lambda>m Vs w ld f.
         case ld of
           Displacement (a, b, c) \<Rightarrow>
             if a \<le> 2 then Converged (map (\<lambda>x. x + a) f) else NotConverged (map (\<lambda>x. x - 1) f)
         | Pressure p \<Rightarrow> NotConverged f)\<rparr>"

definition demo_nb :: "(unit, unit) notebook" where
  "demo_nb =
     \<lparr>mesh = (), V = demo_V, Z = demo_Z, material = (),
      r = (1, 0, 0), pressure = 7, u = [1, 2, 3, 4, 5, 6],
      disp_neo = [], stress_neo = [], total_force = None, stdout = [], solver_calls = []\<rparr>"

definition demo_ex :: "(unit, unit) exercise" where
  "demo_ex = \<lparr>def_grad = (\<lambda>f. Inr ()), W_guccione = (\<lambda>F. Inr ())\<rparr>"

text \<open>Exercise cells of which the second raises.\<close>

definition demo_ex_raising :: "(unit, unit) exercise" where
  "demo_ex_raising = \<lparr>def_grad = (\<lambda>f. Inr ()), W_guccione = (\<lambda>F. Inl ValueError)\<rparr>"

section \<open>Facts about rounding\<close>

lemma binade_from_eq:
  "2 powi e \<le> a \<Longrightarrow> a < 2 powi (e + 1) \<Longrightarrow> - 1022 \<le> e \<Longrightarrow> e + 1022 \<le> int k \<Longrightarrow>
     binade_from k a = e"
proof (induction k)
  case 0
  then show ?case by simp
next
  case (Suc k)
  show ?case
  proof (cases "int (Suc k) - 1022 = e")
    case True
    then show ?thesis using Suc.prems(1) by simp
  next
    case False
    then have lt: "e + 1 \<le> int (Suc k) - 1022" using Suc.prems(4) by simp
    have "(2::real) powi (e + 1) \<le> 2 powi (int (Suc k) - 1022)"
      using lt by (intro power_int_increasing) simp_all
    then have "\<not> 2 powi (int (Suc k) - 1022) \<le> a" using Suc.prems(2) by linarith
    moreover have "e + 1022 \<le> int k" using lt by simp
    ultimately show ?thesis using Suc.IH[OF Suc.prems(1,2,3)] by simp
  qed
qed

lemma binade_from_small: "a < 2 powi (- 1022) \<Longrightarrow> binade_from k a = - 1022"
proof (induction k)
  case 0
  then show ?case by simp
next
  case (Suc k)
  have "(2::real) powi (- 1022) \<le> 2 powi (int (Suc k) - 1022)"
    by (intro power_int_increasing) simp_all
  then have "\<not> 2 powi (int (Suc k) - 1022) \<le> a" using Suc.prems by linarith
  then show ?case using Suc by simp
qed

lemma binade_from_spec:
  "- 1022 \<le> binade_from k a \<and> binade_from k a \<le> int k - 1022 \<and>
   (binade_from k a = - 1022 \<or> 2 powi (binade_from k a) \<le> a) \<and>
   (a < 2 powi (int k - 1021) \<longrightarrow> a < 2 powi (binade_from k a + 1))"
proof (induction k)
  case 0
  then show ?case by simp
next
  case (Suc k)
  show ?case
  proof (cases "2 powi (int (Suc k) - 1022) \<le> a")
    case True
    then show ?thesis by (simp add: algebra_simps)
  next
    case False
    then have "a < 2 powi (int k - 1021)" by (simp add: algebra_simps)
    then show ?thesis using Suc False by simp
  qed
qed

lemma double_round_eval:
  assumes "2 powi e \<le> \<bar>x\<bar>" and "\<bar>x\<bar> < 2 powi (e + 1)" and "- 1022 \<le> e" and "e \<le> 1023"
  shows "double_round x = of_int (round_half_even (x / 2 powi (e - 52))) * 2 powi (e - 52)"
proof -
  have "binade x = e"
    unfolding binade_def using assms by (intro binade_from_eq) simp_all
  then show ?thesis by (simp add: double_round_def)
qed

lemma round_half_even_of_int: "round_half_even (of_int m) = m"
  by (simp add: round_half_even_def)

lemma double_round_exact:
  assumes x: "x = of_int m * 2 powi k" and m: "\<bar>m\<bar> < 2 ^ 53" and k: "- 1074 \<le> k" "k \<le> 971"
  shows "double_round x = x"
proof -
  define e where "e = binade x"
  have ax: "\<bar>x\<bar> = of_int \<bar>m\<bar> * 2 powi k" by (simp add: x abs_mult)
  have "of_int \<bar>m\<bar> < (2::real) ^ 53" using m by (metis of_int_less_iff of_int_numeral of_int_power)
  then have "\<bar>x\<bar> < 2 ^ 53 * 2 powi k" unfolding ax by (intro mult_strict_right_mono) simp_all
  also have "\<dots> = 2 powi (53 + k)" by (simp add: power_int_add)
  finally have up: "\<bar>x\<bar> < 2 powi (53 + k)" .
  have "(2::real) powi (53 + k) \<le> 2 powi 1024" using k by (intro power_int_increasing) simp_all
  then have big: "\<bar>x\<bar> < 2 powi (int 2045 - 1021)" using up by simp
  from binade_from_spec[of 2045 "\<bar>x\<bar>"] big have sp:
    "- 1022 \<le> e" "e = - 1022 \<or> 2 powi e \<le> \<bar>x\<bar>"
    by (simp_all add: e_def binade_def)
  have j: "0 \<le> k - e + 52"
  proof (cases "e = - 1022")
    case True
    then show ?thesis using k by simp
  next
    case False
    then have "2 powi e \<le> \<bar>x\<bar>" using sp(2) by simp
    then have "(2::real) powi e < 2 powi (53 + k)" using up by linarith
    then have "e < 53 + k"
      using power_int_increasing[of "53 + k" e "2::real"] by (cases "e < 53 + k") auto
    then show ?thesis by simp
  qed
  define j where "j = nat (k - e + 52)"
  have kj: "k = int j + (e - 52)" using j by (simp add: j_def)
  have "x / 2 powi (e - 52) = of_int m * 2 ^ j"
    unfolding x kj by (simp add: power_int_add)
  also have "\<dots> = of_int (m * 2 ^ j)" by simp
  finally have q: "x / 2 powi (e - 52) = of_int (m * 2 ^ j)" .
  have "double_round x = of_int (m * 2 ^ j) * 2 powi (e - 52)"
    unfolding double_round_def e_def[symmetric] q round_half_even_of_int ..
  also have "\<dots> = of_int m * 2 powi (int j + (e - 52))" by (simp add: power_int_add)
  also have "\<dots> = x" using x kj by simp
  finally show ?thesis .
qed

lemma double_round_of_int: "\<bar>m\<bar> < 2 ^ 53 \<Longrightarrow> double_round (of_int m) = of_int m"
  using double_round_exact[of "of_int m" m 0] by simp

lemma double_round_zero [simp]: "double_round 0 = 0"
  using double_round_of_int[of 0] by simp

lemma double_round_one [simp]: "double_round 1 = 1"
  using double_round_of_int[of 1] by simp

lemma double_round_numeral [simp]:
  "(numeral n :: int) < 9007199254740992 \<Longrightarrow> double_round (numeral n) = numeral n"
  using double_round_of_int[of "numeral n"] by simp

lemma double_round_neg_numeral [simp]:
  "(numeral n :: int) < 9007199254740992 \<Longrightarrow> double_round (- numeral n) = - numeral n"
  using double_round_of_int[of "- numeral n"] by simp

lemma double_round_half [simp]: "double_round (1 / 2) = 1 / 2"
  using double_round_exact[of "1 / 2" 1 "- 1"] by simp

lemma double_round_neg_half [simp]: "double_round (- (1 / 2)) = - (1 / 2)"
  using double_round_exact[of "- (1 / 2)" "- 1" "- 1"] by simp

lemma double_round_quarter [simp]: "double_round (1 / 4) = 1 / 4"
  using double_round_exact[of "1 / 4" 1 "- 2"] by simp

lemma sqrt_25: "sqrt 25 = 5"
  by (rule real_sqrt_unique) simp_all

lemma round_half_even_cases:
  "round_half_even q = \<lfloor>q\<rfloor> \<or> round_half_even q = \<lfloor>q\<rfloor> + 1"
  by (simp add: round_half_even_def Let_def)

lemma round_half_even_mono:
  assumes "q \<le> q'"
  shows "round_half_even q \<le> round_half_even q'"
proof (cases "\<lfloor>q\<rfloor> = \<lfloor>q'\<rfloor>")
  case True
  have "q - of_int \<lfloor>q'\<rfloor> \<le> q' - of_int \<lfloor>q'\<rfloor>" using assms by simp
  then show ?thesis using True by (auto simp: round_half_even_def Let_def)
next
  case False
  have "\<lfloor>q\<rfloor> \<le> \<lfloor>q'\<rfloor>" using assms by (rule floor_mono)
  then have "\<lfloor>q\<rfloor> + 1 \<le> \<lfloor>q'\<rfloor>" using False by simp
  moreover have "round_half_even q \<le> \<lfloor>q\<rfloor> + 1"
    using round_half_even_cases[of q] by auto
  moreover have "\<lfloor>q'\<rfloor> \<le> round_half_even q'"
    using round_half_even_cases[of q'] by auto
  ultimately show ?thesis by linarith
qed

lemma round_half_even_minus: "round_half_even (- q) = - round_half_even q"
proof (cases "q = of_int \<lfloor>q\<rfloor>")
  case True
  then obtain m where "q = of_int m" by metis
  then show ?thesis
    using round_half_even_of_int[of m] round_half_even_of_int[of "- m"] by simp
next
  case False
  then have fl: "\<lfloor>- q\<rfloor> = - \<lfloor>q\<rfloor> - 1"
    by (metis ceiling_altdef ceiling_def add_diff_cancel_right' minus_add_cancel
        minus_diff_eq uminus_add_conv_diff)
  show ?thesis
    unfolding round_half_even_def Let_def fl
    by (auto simp: algebra_simps)
qed


lemma binade_from_mono: "a \<le> b \<Longrightarrow> binade_from k a \<le> binade_from k b"
proof (induction k)
  case 0
  then show ?case by simp
next
  case (Suc k)
  have "binade_from k b \<le> int k - 1022" using binade_from_spec[of k b] by simp
  then show ?case using Suc by auto
qed

lemma binade_from_upper:
  "binade_from k a < int k - 1022 \<Longrightarrow> a < 2 powi (binade_from k a + 1)"
proof (induction k)
  case 0
  then show ?case by simp
next
  case (Suc k)
  from Suc.prems have no: "\<not> 2 powi (int (Suc k) - 1022) \<le> a"
    by (auto split: if_splits)
  then have eq: "binade_from (Suc k) a = binade_from k a" by simp
  show ?case
  proof (cases "binade_from k a < int k - 1022")
    case True
    then show ?thesis using Suc.IH eq by simp
  next
    case False
    then have "binade_from k a = int k - 1022" using binade_from_spec[of k a] by simp
    then have "int (Suc k) - 1022 = binade_from (Suc k) a + 1" using eq by simp
    then show ?thesis using no by (simp only: not_le)
  qed
qed

lemma two_powi_split:
  "(2::real) ^ n * 2 powi (e - int n) = 2 powi e"
proof -
  have "(2::real) powi e = 2 powi (int n + (e - int n))" by simp
  also have "\<dots> = 2 powi (int n) * 2 powi (e - int n)" by (rule power_int_add) simp
  finally show ?thesis by simp
qed

lemma binade_minus [simp]: "binade (- x) = binade x"
  by (simp add: binade_def)

lemma double_round_minus: "double_round (- x) = - double_round x"
  by (simp add: double_round_def round_half_even_minus)

lemma double_round_mono_nonneg:
  assumes "0 \<le> x" and "x \<le> y"
  shows "double_round x \<le> double_round y"
proof -
  define e where "e = binade x"
  define e' where "e' = binade y"
  have le: "e \<le> e'"
    unfolding e_def e'_def binade_def using assms by (intro binade_from_mono) simp
  show ?thesis
  proof (cases "e = e'")
    case True
    have "x / 2 powi (e - 52) \<le> y / 2 powi (e - 52)"
      using assms(2) by (intro divide_right_mono) simp_all
    then have "round_half_even (x / 2 powi (e - 52)) \<le> round_half_even (y / 2 powi (e - 52))"
      by (rule round_half_even_mono)
    then have "of_int (round_half_even (x / 2 powi (e - 52))) * (2::real) powi (e - 52)
        \<le> of_int (round_half_even (y / 2 powi (e - 52))) * 2 powi (e - 52)"
      by (intro mult_right_mono) simp_all
    then show ?thesis
      unfolding double_round_def e_def[symmetric] e'_def[symmetric] True[symmetric] .
  next
    case False
    then have lt: "e < e'" using le by simp
    have e'up: "e' \<le> 1023" using binade_from_spec[of 2045 "\<bar>y\<bar>"] by (simp add: e'_def binade_def)
    have "binade_from 2045 \<bar>x\<bar> < int 2045 - 1022" using lt e'up by (simp add: e_def binade_def)
    then have "\<bar>x\<bar> < 2 powi (binade_from 2045 \<bar>x\<bar> + 1)" by (rule binade_from_upper)
    then have xup: "x < 2 powi (e + 1)" using assms(1) by (simp add: e_def binade_def)
    have "x / 2 powi (e - 52) \<le> 2 powi (e + 1) / 2 powi (e - 52)"
      using xup by (intro divide_right_mono) simp_all
    also have "\<dots> = of_int (2 ^ 53)" by (simp add: power_int_diff [symmetric])
    finally have "round_half_even (x / 2 powi (e - 52)) \<le> round_half_even (of_int (2 ^ 53))"
      by (rule round_half_even_mono)
    then have "round_half_even (x / 2 powi (e - 52)) \<le> 2 ^ 53"
      by (simp only: round_half_even_of_int)
    then have "(of_int (round_half_even (x / 2 powi (e - 52))) :: real) \<le> of_int (2 ^ 53)"
      by (simp only: of_int_le_iff)
    then have "of_int (round_half_even (x / 2 powi (e - 52))) * (2::real) powi (e - 52)
        \<le> of_int (2 ^ 53) * 2 powi (e - 52)"
      by (intro mult_right_mono) simp_all
    also have "\<dots> = 2 powi (e + 1)" using two_powi_split[of 53 "e + 1"] by simp
    finally have a: "double_round x \<le> 2 powi (e + 1)"
      unfolding double_round_def e_def[symmetric] .
    have e'lo: "e' \<noteq> - 1022" using lt binade_from_spec[of 2045 "\<bar>x\<bar>"] by (simp add: e_def binade_def)
    have y0: "0 \<le> y" using assms by simp
    have ylo: "2 powi e' \<le> y"
      using binade_from_spec[of 2045 "\<bar>y\<bar>"] e'lo y0 by (simp add: e'_def binade_def)
    have "of_int (2 ^ 52) = (2::real) powi e' / 2 powi (e' - 52)"
      by (simp add: power_int_diff [symmetric])
    also have "\<dots> \<le> y / 2 powi (e' - 52)"
      using ylo by (intro divide_right_mono) simp_all
    finally have "round_half_even (of_int (2 ^ 52)) \<le> round_half_even (y / 2 powi (e' - 52))"
      by (rule round_half_even_mono)
    then have "2 ^ 52 \<le> round_half_even (y / 2 powi (e' - 52))"
      by (simp only: round_half_even_of_int)
    then have "(of_int (2 ^ 52) :: real) \<le> of_int (round_half_even (y / 2 powi (e' - 52)))"
      by (simp only: of_int_le_iff)
    then have c: "of_int (2 ^ 52) * (2::real) powi (e' - 52)
        \<le> of_int (round_half_even (y / 2 powi (e' - 52))) * 2 powi (e' - 52)"
      by (intro mult_right_mono) simp_all
    have d: "of_int (2 ^ 52) * (2::real) powi (e' - 52) = 2 powi e'"
      using two_powi_split[of 52 e'] by simp
    have b: "2 powi e' \<le> double_round y"
      using c unfolding d double_round_def e'_def[symmetric] .
    have "(2::real) powi (e + 1) \<le> 2 powi e'"
      using lt by (intro power_int_increasing) simp_all
    then show ?thesis using a b by linarith
  qed
qed

lemma double_round_nonneg: "0 \<le> x \<Longrightarrow> 0 \<le> double_round x"
  using double_round_mono_nonneg[of 0 x] by simp

lemma double_round_mono:
  assumes "x \<le> y"
  shows "double_round x \<le> double_round y"
proof (cases "0 \<le> x")
  case True
  then show ?thesis using assms by (rule double_round_mono_nonneg)
next
  case False
  then have x: "0 \<le> - x" by simp
  show ?thesis
  proof (cases "0 \<le> y")
    case True
    have "double_round x \<le> 0"
      using double_round_nonneg[OF x] by (simp add: double_round_minus)
    then show ?thesis using double_round_nonneg[OF True] by linarith
  next
    case False
    then have "0 \<le> - y" "- y \<le> - x" using assms by simp_all
    then have "double_round (- y) \<le> double_round (- x)" by (rule double_round_mono_nonneg)
    then show ?thesis by (simp add: double_round_minus)
  qed
qed







lemma fl_of_int_exact: "\<bar>k\<bar> < 2 ^ 53 \<Longrightarrow> fl_of_int k = of_int k"
  by (simp add: fl_of_int_def double_round_of_int)


lemma fl_of_int_numeral [simp]:
  "numeral n < (2::int) ^ 53 \<Longrightarrow> fl_of_int (numeral n) = numeral n"
  using fl_of_int_exact[of "numeral n"] by simp

lemma fl_of_int_zero [simp]: "fl_of_int 0 = 0"
  by (simp add: fl_of_int_def)

lemma fl_of_int_one [simp]: "fl_of_int 1 = 1"
  by (simp add: fl_of_int_def)

lemma fl_of_int_mono: "i \<le> j \<Longrightarrow> fl_of_int i \<le> fl_of_int j"
  unfolding fl_of_int_def by (intro double_round_mono) simp

lemma fl_of_int_pos: "1 \<le> n \<Longrightarrow> 1 \<le> fl_of_int n"
  using fl_of_int_mono[of 1 n] by simp

lemma percent_f_of_int: "percent_f (of_int m) = of_int m"
proof -
  have "of_int m * (1000000::real) = of_int (m * 1000000)" by simp
  then have "round_half_even (of_int m * 1000000) = m * 1000000"
    by (simp only: round_half_even_of_int)
  then show ?thesis by (simp add: percent_f_def)
qed

lemma percent_f_numeral [simp]: "percent_f (numeral n) = numeral n"
  using percent_f_of_int[of "numeral n"] by simp

lemma percent_f_neg_numeral [simp]: "percent_f (- numeral n) = - numeral n"
  using percent_f_of_int[of "- numeral n"] by simp

lemma percent_f_zero [simp]: "percent_f 0 = 0"
  using percent_f_of_int[of 0] by simp

lemma percent_f_one [simp]: "percent_f 1 = 1"
  using percent_f_of_int[of 1] by simp

lemma percent_f_neg_one [simp]: "percent_f (- 1) = - 1"
  using percent_f_of_int[of "- 1"] by simp

lemma double_round_neg_one [simp]: "double_round (- 1) = - 1"
  using double_round_of_int[of "- 1"] by simp

section \<open>The point samplers return the value at the first node of least computed distance\<close>

lemma argmin_from_spec:
  assumes "length pre = i" "bi < i" "pre ! bi = best" "\<forall>k<i. best \<le> pre ! k"
    and "\<forall>k<bi. best < pre ! k"
  shows "argmin_from xs i best bi < i + length xs \<and>
         (\<forall>k < i + length xs. (pre @ xs) ! (argmin_from xs i best bi) \<le> (pre @ xs) ! k) \<and>
         (\<forall>k < argmin_from xs i best bi.
            (pre @ xs) ! (argmin_from xs i best bi) < (pre @ xs) ! k)"
  using assms
proof (induction xs arbitrary: pre i best bi)
  case Nil
  then show ?case by simp
next
  case (Cons x xs)
  let ?pre = "pre @ [x]"
  have a: "length ?pre = Suc i" using Cons.prems by simp
  show ?case
  proof (cases "x < best")
    case True
    have b: "?pre ! i = x" using Cons.prems by (simp add: nth_append)
    have c: "\<forall>k<Suc i. x \<le> ?pre ! k"
    proof (intro allI impI)
      fix k assume "k < Suc i"
      show "x \<le> ?pre ! k"
      proof (cases "k < i")
        case True
        then have "best \<le> pre ! k" using Cons.prems by simp
        then have "x \<le> pre ! k" using \<open>x < best\<close> by linarith
        then show ?thesis using True Cons.prems(1) by (simp add: nth_append)
      next
        case False
        then have "k = i" using \<open>k < Suc i\<close> by simp
        then show ?thesis using b by simp
      qed
    qed
    have d: "\<forall>k<i. x < ?pre ! k"
    proof (intro allI impI)
      fix k assume k: "k < i"
      then have "best \<le> pre ! k" using Cons.prems by simp
      then have "x < pre ! k" using \<open>x < best\<close> by linarith
      then show "x < ?pre ! k" using k Cons.prems(1) by (simp add: nth_append)
    qed
    from Cons.IH[OF a _ b c d] True show ?thesis by simp
  next
    case False
    have b: "?pre ! bi = best" using Cons.prems by (simp add: nth_append)
    have c: "\<forall>k<Suc i. best \<le> ?pre ! k"
    proof (intro allI impI)
      fix k assume "k < Suc i"
      show "best \<le> ?pre ! k"
      proof (cases "k < i")
        case True
        then show ?thesis using Cons.prems by (simp add: nth_append)
      next
        case False
        then have "k = i" using \<open>k < Suc i\<close> by simp
        moreover have "best \<le> x" using \<open>\<not> x < best\<close> by linarith
        ultimately show ?thesis using Cons.prems(1) by (simp add: nth_append)
      qed
    qed
    have d: "bi < Suc i" using Cons.prems by simp
    have e: "\<forall>k<bi. best < ?pre ! k"
    proof (intro allI impI)
      fix k assume k: "k < bi"
      then have "best < pre ! k" using Cons.prems by simp
      then show "best < ?pre ! k" using k Cons.prems(1,2) by (simp add: nth_append)
    qed
    from Cons.IH[OF a d b c e] False show ?thesis by simp
  qed
qed

lemma argmin_spec:
  assumes "xs \<noteq> []"
  shows "\<exists>j. argmin xs = Inr j \<and> j < length xs \<and> (\<forall>k<length xs. xs ! j \<le> xs ! k) \<and>
           (\<forall>k<j. xs ! j < xs ! k)"
proof -
  obtain x rest where xs: "xs = x # rest" using assms by (cases xs) auto
  have "argmin_from rest 1 x 0 < 1 + length rest \<and>
        (\<forall>k < 1 + length rest. ([x] @ rest) ! (argmin_from rest 1 x 0) \<le> ([x] @ rest) ! k) \<and>
        (\<forall>k < argmin_from rest 1 x 0.
            ([x] @ rest) ! (argmin_from rest 1 x 0) < ([x] @ rest) ! k)"
    by (rule argmin_from_spec) auto
  then show ?thesis using xs by (simp add: argmin_def)
qed

lemma stride_Nil_iff: "stride k xs = [] \<longleftrightarrow> xs = []"
  by (cases xs) auto

lemma reshape_index_ok:
  assumes "0 < k" "length a = k * n" "j < n" "0 \<le> c" "c < int k"
  shows "reshape_index k a j c = Inr (a ! (j * k + nat c))"
  using assms by (simp add: reshape_index_def Let_def)

lemma sampler_nearest:
  assumes "0 < k" "dofs \<noteq> []" "length vals = k * length (stride k dofs)" "0 \<le> c" "c < int k"
  shows "\<exists>j<length (stride k dofs).
           (case argmin (map (\<lambda>p. norm3 (sub3 p pos)) (stride k dofs)) of
              Inl e \<Rightarrow> Inl e | Inr d \<Rightarrow> reshape_index k vals d c)
             = Inr (vals ! (j * k + nat c)) \<and>
           (\<forall>i<length (stride k dofs).
              norm3 (sub3 (stride k dofs ! j) pos) \<le> norm3 (sub3 (stride k dofs ! i) pos)) \<and>
           (\<forall>i<j. norm3 (sub3 (stride k dofs ! j) pos) < norm3 (sub3 (stride k dofs ! i) pos))"
proof -
  let ?cs = "stride k dofs"
  let ?ds = "map (\<lambda>p. norm3 (sub3 p pos)) ?cs"
  have "?ds \<noteq> []" using assms(2) by (simp add: stride_Nil_iff)
  from argmin_spec[OF this] obtain j where
    j: "argmin ?ds = Inr j" "j < length ?ds" "\<forall>i<length ?ds. ?ds ! j \<le> ?ds ! i"
       "\<forall>i<j. ?ds ! j < ?ds ! i" by blast
  have jl: "j < length ?cs" using j(2) by simp
  have r: "reshape_index k vals j c = Inr (vals ! (j * k + nat c))"
    by (rule reshape_index_ok[OF assms(1) assms(3) jl assms(4) assms(5)])
  have m: "\<forall>i<length ?cs. norm3 (sub3 (?cs ! j) pos) \<le> norm3 (sub3 (?cs ! i) pos)"
    using j(3) jl by simp
  have f: "\<forall>i<j. norm3 (sub3 (?cs ! j) pos) < norm3 (sub3 (?cs ! i) pos)"
    using j(4) jl by simp
  show ?thesis using j(1) jl r m f by auto
qed

text \<open>
  C10, as the code has it. Over a function space with at least one degree of freedom, a
  value array of the matching size and a component index in range, \<open>get_stress\<close> and
  \<open>get_disp\<close> return a value for every query position, inside the mesh or not: the array
  entry stored at the first node, in the order of the degrees of freedom, whose distance
  to the position as \<open>np.linalg.norm\<close> computes it in double precision is least among all
  nodes. No error is raised and no value is computed between nodes.
\<close>

theorem samplers_nearest_node:
  assumes "tabulate_dof_coordinates Zs \<noteq> []"
    and "length P_local = 9 * length (stride 9 (tabulate_dof_coordinates Zs))"
    and "0 \<le> cs" and "cs < 9"
    and "tabulate_dof_coordinates Vs \<noteq> []"
    and "length ul = 3 * length (stride 3 (tabulate_dof_coordinates Vs))"
    and "0 \<le> cd" and "cd < 3"
  shows "(\<exists>j<length (stride 9 (tabulate_dof_coordinates Zs)).
            get_stress Zs P_local pos cs = Inr (P_local ! (j * 9 + nat cs)) \<and>
            (\<forall>i<length (stride 9 (tabulate_dof_coordinates Zs)).
               norm3 (sub3 (stride 9 (tabulate_dof_coordinates Zs) ! j) pos)
                 \<le> norm3 (sub3 (stride 9 (tabulate_dof_coordinates Zs) ! i) pos)) \<and>
            (\<forall>i<j. norm3 (sub3 (stride 9 (tabulate_dof_coordinates Zs) ! j) pos)
                 < norm3 (sub3 (stride 9 (tabulate_dof_coordinates Zs) ! i) pos))) \<and>
         (\<exists>j<length (stride 3 (tabulate_dof_coordinates Vs)).
            get_disp Vs ul pos' cd = Inr (ul ! (j * 3 + nat cd)) \<and>
            (\<forall>i<length (stride 3 (tabulate_dof_coordinates Vs)).
               norm3 (sub3 (stride 3 (tabulate_dof_coordinates Vs) ! j) pos')
                 \<le> norm3 (sub3 (stride 3 (tabulate_dof_coordinates Vs) ! i) pos')) \<and>
            (\<forall>i<j. norm3 (sub3 (stride 3 (tabulate_dof_coordinates Vs) ! j) pos')
                 < norm3 (sub3 (stride 3 (tabulate_dof_coordinates Vs) ! i) pos')))"
proof
  have "(0::nat) < 9" by simp
  from sampler_nearest[OF this assms(1) assms(2) assms(3), of pos] assms(4)
  show "\<exists>j<length (stride 9 (tabulate_dof_coordinates Zs)).
            get_stress Zs P_local pos cs = Inr (P_local ! (j * 9 + nat cs)) \<and>
            (\<forall>i<length (stride 9 (tabulate_dof_coordinates Zs)).
               norm3 (sub3 (stride 9 (tabulate_dof_coordinates Zs) ! j) pos)
                 \<le> norm3 (sub3 (stride 9 (tabulate_dof_coordinates Zs) ! i) pos)) \<and>
            (\<forall>i<j. norm3 (sub3 (stride 9 (tabulate_dof_coordinates Zs) ! j) pos)
                 < norm3 (sub3 (stride 9 (tabulate_dof_coordinates Zs) ! i) pos))"
    by (simp add: get_stress_def Let_def)
next
  have "(0::nat) < 3" by simp
  from sampler_nearest[OF this assms(5) assms(6) assms(7), of "pos'"] assms(8)
  show "\<exists>j<length (stride 3 (tabulate_dof_coordinates Vs)).
            get_disp Vs ul pos' cd = Inr (ul ! (j * 3 + nat cd)) \<and>
            (\<forall>i<length (stride 3 (tabulate_dof_coordinates Vs)).
               norm3 (sub3 (stride 3 (tabulate_dof_coordinates Vs) ! j) pos')
                 \<le> norm3 (sub3 (stride 3 (tabulate_dof_coordinates Vs) ! i) pos')) \<and>
            (\<forall>i<j. norm3 (sub3 (stride 3 (tabulate_dof_coordinates Vs) ! j) pos')
                 < norm3 (sub3 (stride 3 (tabulate_dof_coordinates Vs) ! i) pos'))"
    by (simp add: get_disp_def Let_def)
qed

lemma stride_demo_space:
  "stride 9 (tabulate_dof_coordinates (demo_space 9 [a, b])) = [a, b]"
  "stride 3 (tabulate_dof_coordinates (demo_space 3 [a, b])) = [a, b]"
  by (simp_all add: demo_space_def eval_nat_numeral)

lemma demo_stride9: "stride 9 (tabulate_dof_coordinates demo_Z) = [(0, 0.5, 0.5), (5, 0.5, 0.5)]"
  by (simp add: demo_Z_def stride_demo_space)

lemma demo_stride3: "stride 3 (tabulate_dof_coordinates demo_V) = [(7, 4.5, 1), (10, 0.5, 1)]"
  by (simp add: demo_V_def stride_demo_space)

lemmas fl_defs = fl_add_def fl_sub_def fl_mul_def fl_div_def fl_sqrt_def

lemma demo_get_stress:
  "get_stress demo_Z (replicate 9 a @ replicate 9 b) (5, 1 / 2, 1 / 2) 0 = Inr b"
  by (simp add: get_stress_def demo_stride9 argmin_def reshape_index_def Let_def
      nth_append fl_defs sqrt_25)

lemma demo_get_disp:
  "get_disp demo_V [a, b, c, d, e, f] (10, 1 / 2, 1) 2 = Inr f"
  by (simp add: get_disp_def demo_stride3 argmin_def reshape_index_def Let_def fl_defs sqrt_25)

lemma sqrt_squares: "sqrt 36 = 6" "sqrt 144 = 12" "sqrt 169 = 13"
  by (rule real_sqrt_unique; simp)+

theorem samplers_nearest_node_witness:
  "tabulate_dof_coordinates demo_Z \<noteq> [] \<and>
   length (map real [0..<18]) = 9 * length (stride 9 (tabulate_dof_coordinates demo_Z)) \<and>
   tabulate_dof_coordinates demo_V \<noteq> [] \<and>
   length [0, 0, 0, 1, 2, 3 :: real] = 3 * length (stride 3 (tabulate_dof_coordinates demo_V)) \<and>
   get_stress demo_Z (map real [0..<18]) (5, 12.5, 0.5) 0 = Inr 9 \<and>
   get_disp demo_V [0, 0, 0, 1, 2, 3] (13, 4.5, 1) 2 = Inr 3 \<and>
   (\<exists>j<length (stride 9 (tabulate_dof_coordinates demo_Z)).
      get_stress demo_Z (map real [0..<18]) (5, 12.5, 0.5) 0
        = Inr (map real [0..<18] ! (j * 9 + nat 0)) \<and>
      (\<forall>i<length (stride 9 (tabulate_dof_coordinates demo_Z)).
         norm3 (sub3 (stride 9 (tabulate_dof_coordinates demo_Z) ! j) (5, 12.5, 0.5))
           \<le> norm3 (sub3 (stride 9 (tabulate_dof_coordinates demo_Z) ! i) (5, 12.5, 0.5))))"
proof -
  have a: "tabulate_dof_coordinates demo_Z \<noteq> []" by (simp add: demo_Z_def demo_space_def)
  have b: "length (map real [0..<18]) = 9 * length (stride 9 (tabulate_dof_coordinates demo_Z))"
    by (simp add: demo_stride9)
  have c: "tabulate_dof_coordinates demo_V \<noteq> []" by (simp add: demo_V_def demo_space_def)
  have d: "length [0, 0, 0, 1, 2, 3 :: real] = 3 * length (stride 3 (tabulate_dof_coordinates demo_V))"
    by (simp add: demo_stride3)
  have e: "get_stress demo_Z (map real [0..<18]) (5, 12.5, 0.5) 0 = Inr 9"
    by (simp add: get_stress_def demo_stride9 argmin_def reshape_index_def Let_def fl_defs
        sqrt_squares)
  have f: "get_disp demo_V [0, 0, 0, 1, 2, 3] (13, 4.5, 1) 2 = Inr 3"
    by (simp add: get_disp_def demo_stride3 argmin_def reshape_index_def Let_def fl_defs
        sqrt_squares sqrt_25)
  have h1: "(0::int) \<le> 0" and h2: "(0::int) < 9" and h3: "(0::int) \<le> 2" and h4: "(2::int) < 3"
    by simp_all
  note t = samplers_nearest_node[OF a b h1 h2 c d h3 h4, of "(5, 12.5, 0.5)" "(13, 4.5, 1)"]
  show ?thesis using a b c d e f t by blast
qed

lemma double_round_big_square: "double_round 9999998000000100 = 9999998000000100"
  using double_round_exact[of 9999998000000100 2499999500000025 2] by simp

lemma double_round_big_sum:
  "double_round (39999992000000401 / 4) = 9999998000000100"
proof -
  have "double_round (39999992000000401 / 4) =
          of_int (round_half_even ((39999992000000401 / 4) / 2 powi (53 - 52))) * 2 powi (53 - 52)"
    by (rule double_round_eval) simp_all
  also have "\<dots> = 9999998000000100"
    by (simp add: round_half_even_def Let_def)
  finally show ?thesis .
qed

lemma sqrt_big_square: "sqrt 9999998000000100 = 99999990"
  by (rule real_sqrt_unique) simp_all

text \<open>Two tip nodes and a position far out on the axis of the beam: the second node is
  strictly nearer, the computed distances are equal, and the value of the first node is
  returned.\<close>

theorem samplers_far_position_counterexample:
  "euclid (10, 0.5, 0.5) (100000000, 0.5, 0.5) < euclid (10, 0, 0) (100000000, 0.5, 0.5) \<and>
   norm3 (sub3 (10, 0.5, 0.5) (100000000, 0.5, 0.5)) = 99999990 \<and>
   norm3 (sub3 (10, 0, 0) (100000000, 0.5, 0.5)) = 99999990 \<and>
   get_disp (demo_space 3 [(10, 0, 0), (10, 0.5, 0.5)]) [1, 1, 1, 2, 2, 2]
     (100000000, 0.5, 0.5) 2 = Inr 1"
  by (simp add: get_disp_def stride_demo_space argmin_def reshape_index_def Let_def fl_defs
      double_round_big_square double_round_big_sum sqrt_big_square real_less_rsqrt)

section \<open>Reasoning about iteration that may raise\<close>

lemma for_loop_rule_gen:
  assumes step: "\<And>dn i t. I dn t \<Longrightarrow>
            (case body i t of Inr t' \<Rightarrow> I (dn @ [i]) t' | Inl (e, t') \<Rightarrow> Q (dn @ [i]) e t')"
  shows "I dn s \<Longrightarrow>
         (case for_loop body js s of
            Inr t \<Rightarrow> I (dn @ js) t
          | Inl (e, t) \<Rightarrow> \<exists>m<length js. Q (dn @ take (Suc m) js) e t)"
proof (induction js arbitrary: dn s)
  case Nil
  then show ?case by simp
next
  case (Cons j js)
  note st = step[OF Cons.prems, of j]
  show ?case
  proof (cases "body j s")
    case (Inl a)
    obtain e t where a: "a = (e, t)" by (cases a)
    from st Inl a have "Q (dn @ [j]) e t" by simp
    then have "\<exists>m<length (j # js). Q (dn @ take (Suc m) (j # js)) e t"
      by (intro exI[of _ 0]) simp
    then show ?thesis using Inl a by simp
  next
    case (Inr t')
    from st Inr have i': "I (dn @ [j]) t'" by simp
    from Cons.IH[OF i'] have ih:
      "case for_loop body js t' of
         Inr t \<Rightarrow> I ((dn @ [j]) @ js) t
       | Inl (e, t) \<Rightarrow> \<exists>m<length js. Q ((dn @ [j]) @ take (Suc m) js) e t" .
    show ?thesis
    proof (cases "for_loop body js t'")
      case (Inl a)
      obtain e t where a: "a = (e, t)" by (cases a)
      from ih Inl a obtain m where m: "m < length js" "Q ((dn @ [j]) @ take (Suc m) js) e t"
        by auto
      then have "Suc m < length (j # js) \<and> Q (dn @ take (Suc (Suc m)) (j # js)) e t" by simp
      then have "\<exists>m<length (j # js). Q (dn @ take (Suc m) (j # js)) e t" by blast
      then show ?thesis using Inl a \<open>body j s = Inr t'\<close> by simp
    next
      case (Inr t)
      with ih \<open>body j s = Inr t'\<close> show ?thesis by simp
    qed
  qed
qed

lemma for_loop_rule:
  assumes "I [] s"
    and "\<And>dn i t. I dn t \<Longrightarrow>
            (case body i t of Inr t' \<Rightarrow> I (dn @ [i]) t' | Inl (e, t') \<Rightarrow> Q (dn @ [i]) e t')"
  shows "case for_loop body js s of
            Inr t \<Rightarrow> I js t
          | Inl (e, t) \<Rightarrow> \<exists>m<length js. Q (take (Suc m) js) e t"
proof -
  have "case for_loop body js s of
            Inr t \<Rightarrow> I ([] @ js) t
          | Inl (e, t) \<Rightarrow> \<exists>m<length js. Q ([] @ take (Suc m) js) e t"
    by (rule for_loop_rule_gen[where I = I and Q = Q, OF assms(2) assms(1)])
  then show ?thesis by (cases "for_loop body js s") auto
qed

lemma for_loop_final:
  assumes "P s" and "\<And>i t. P t \<Longrightarrow> P (final (body i t))"
  shows "P (final (for_loop body js s))"
  using assms(1)
proof (induction js arbitrary: s)
  case Nil
  then show ?case by simp
next
  case (Cons j js)
  from assms(2)[OF Cons.prems, of j] have p: "P (final (body j s))" .
  show ?case
  proof (cases "body j s")
    case (Inl a)
    then show ?thesis using p by simp
  next
    case (Inr t)
    then have "P t" using p by simp
    from Cons.IH[OF this] Inr show ?thesis by simp
  qed
qed


lemma argmin_error: "argmin xs = Inl e \<Longrightarrow> e = ValueError"
  by (cases xs) (auto simp: argmin_def)

lemma reshape_index_error: "reshape_index k a i c = Inl e \<Longrightarrow> e = ValueError \<or> e = IndexError"
  by (auto simp: reshape_index_def Let_def split: if_splits)

lemma get_stress_error: "get_stress Zs P pos c = Inl e \<Longrightarrow> e = ValueError \<or> e = IndexError"
  by (auto simp: get_stress_def Let_def split: sum.splits dest: argmin_error reshape_index_error)

lemma get_disp_error: "get_disp Vs ul pos c = Inl e \<Longrightarrow> e = ValueError \<or> e = IndexError"
  by (auto simp: get_disp_def Let_def split: sum.splits dest: argmin_error reshape_index_error)

lemma warm_snoc: "warm f (cs @ [c]) = (warm f cs \<and> call_guess c = end_field f cs)"
  by (induction cs arbitrary: f) (auto simp: end_field_def)

lemma end_field_snoc: "end_field f (cs @ [c]) = result_field (call_result c)"
  by (simp add: end_field_def)

lemma neo_step_calls:
  "solver_calls (final (neo_step fe n inc i t)) =
     solver_calls t @ [(Displacement (fl_mul inc (fl_of_int (i + 1)), 0, 0), u t,
        solve fe (mesh t) (V t) (material t) (Displacement (fl_mul inc (fl_of_int (i + 1)), 0, 0)) (u t))]"
  by (auto simp: neo_step_def call_solve_def print_step_def Let_def
      split: solve_result.splits sum.splits)

lemma neo_step_u:
  "u (final (neo_step fe n inc i t)) =
     result_field (solve fe (mesh t) (V t) (material t)
        (Displacement (fl_mul inc (fl_of_int (i + 1)), 0, 0)) (u t))"
  by (auto simp: neo_step_def call_solve_def print_step_def Let_def
      split: solve_result.splits sum.splits)

lemma neo_step_frame:
  "mesh (final (neo_step fe n inc i t)) = mesh t \<and>
   V (final (neo_step fe n inc i t)) = V t \<and>
   Z (final (neo_step fe n inc i t)) = Z t \<and>
   material (final (neo_step fe n inc i t)) = material t \<and>
   pressure (final (neo_step fe n inc i t)) = pressure t \<and>
   total_force (final (neo_step fe n inc i t)) = total_force t"
  by (auto simp: neo_step_def call_solve_def print_step_def Let_def
      split: solve_result.splits sum.splits)

lemma neo_step_Inr:
  assumes "neo_step fe n inc i t = Inr t'"
  shows "has_converged (solve fe (mesh t) (V t) (material t)
           (Displacement (fl_mul inc (fl_of_int (i + 1)), 0, 0)) (u t)) \<and>
         disp_neo t' = disp_neo t @ [fl_mul inc (fl_of_int (i + 1))] \<and>
         (\<exists>v. stress_neo t' = stress_neo t @ [v]) \<and>
         r t' = (fl_mul inc (fl_of_int (i + 1)), 0, 0) \<and>
         stdout t' = stdout t @ [(i + 1, n, percent_f (fl_mul inc (fl_of_int (i + 1))))]"
  using assms
  by (auto simp: neo_step_def call_solve_def print_step_def Let_def
      split: solve_result.splits sum.splits)

lemma neo_step_Inl:
  assumes "neo_step fe n inc i t = Inl (e, t')"
  shows "stress_neo t' = stress_neo t \<and>
         (e = RuntimeError \<or> e = ValueError \<or> e = IndexError) \<and>
         (if e = RuntimeError
          then \<not> has_converged (solve fe (mesh t) (V t) (material t)
                  (Displacement (fl_mul inc (fl_of_int (i + 1)), 0, 0)) (u t)) \<and>
               disp_neo t' = disp_neo t
          else has_converged (solve fe (mesh t) (V t) (material t)
                  (Displacement (fl_mul inc (fl_of_int (i + 1)), 0, 0)) (u t)) \<and>
               disp_neo t' = disp_neo t @ [fl_mul inc (fl_of_int (i + 1))])"
  using assms
  by (auto simp: neo_step_def call_solve_def print_step_def Let_def
      split: solve_result.splits sum.splits dest: get_stress_error)


lemma neo_loop_summary:
  fixes s0 :: "('m, 'w) notebook"
  assumes res: "res = for_loop (neo_step fe n inc) js s0"
  shows "\<exists>new. solver_calls (final res) = solver_calls s0 @ new \<and>
           warm (u s0) new \<and> u (final res) = end_field (u s0) new \<and>
           (\<forall>c\<in>set (butlast new). has_converged (call_result c)) \<and>
           length new \<le> length js \<and>
           map call_load new =
             map (\<lambda>i. Displacement (fl_mul inc (fl_of_int (i + 1)), 0, 0)) (take (length new) js) \<and>
           (case res of
              Inr t \<Rightarrow>
                length new = length js \<and>
                (\<forall>c\<in>set new. has_converged (call_result c)) \<and>
                disp_neo t = disp_neo s0 @ map (\<lambda>i. fl_mul inc (fl_of_int (i + 1))) js \<and>
                (\<exists>vs. stress_neo t = stress_neo s0 @ vs \<and> length vs = length js)
            | Inl (e, t) \<Rightarrow>
                new \<noteq> [] \<and> (e = RuntimeError \<or> e = ValueError \<or> e = IndexError) \<and>
                (\<exists>vs. stress_neo t = stress_neo s0 @ vs \<and> Suc (length vs) = length new) \<and>
                (if e = RuntimeError
                 then \<not> has_converged (call_result (last new)) \<and>
                      disp_neo t =
                        disp_neo s0 @ map (\<lambda>i. fl_mul inc (fl_of_int (i + 1))) (take (length new - 1) js)
                 else has_converged (call_result (last new)) \<and>
                      disp_neo t =
                        disp_neo s0 @ map (\<lambda>i. fl_mul inc (fl_of_int (i + 1))) (take (length new) js)))"
proof -
  define ld where "ld = (\<lambda>i::int. Displacement (fl_mul inc (fl_of_int (i + 1)), 0, 0))"
  define lv where "lv = (\<lambda>i::int. fl_mul inc (fl_of_int (i + 1)))"
  define I where "I = (\<lambda>dn (t :: ('m, 'w) notebook).
     \<exists>new. solver_calls t = solver_calls s0 @ new \<and> warm (u s0) new \<and>
       u t = end_field (u s0) new \<and> length new = length dn \<and>
       (\<forall>c\<in>set new. has_converged (call_result c)) \<and>
       map call_load new = map ld dn \<and>
       disp_neo t = disp_neo s0 @ map lv dn \<and>
       (\<exists>vs. stress_neo t = stress_neo s0 @ vs \<and> length vs = length dn))"
  define Q where "Q = (\<lambda>dn e (t :: ('m, 'w) notebook).
     \<exists>new. solver_calls t = solver_calls s0 @ new \<and> warm (u s0) new \<and>
       u t = end_field (u s0) new \<and> length new = length dn \<and> dn \<noteq> [] \<and>
       (\<forall>c\<in>set (butlast new). has_converged (call_result c)) \<and>
       map call_load new = map ld dn \<and>
       (e = RuntimeError \<or> e = ValueError \<or> e = IndexError) \<and>
       (\<exists>vs. stress_neo t = stress_neo s0 @ vs \<and> Suc (length vs) = length dn) \<and>
       (if e = RuntimeError
        then \<not> has_converged (call_result (last new)) \<and>
             disp_neo t = disp_neo s0 @ map lv (butlast dn)
        else has_converged (call_result (last new)) \<and>
             disp_neo t = disp_neo s0 @ map lv dn))"
  have init: "I [] s0"
    by (simp add: I_def end_field_def)
  have step: "case neo_step fe n inc i t of
                Inr t' \<Rightarrow> I (dn @ [i]) t' | Inl (e, t') \<Rightarrow> Q (dn @ [i]) e t'"
    if inv: "I dn t" for dn i t
  proof -
    from inv obtain new vs where new:
      "solver_calls t = solver_calls s0 @ new" "warm (u s0) new"
      "u t = end_field (u s0) new" "length new = length dn"
      "\<forall>c\<in>set new. has_converged (call_result c)"
      "map call_load new = map ld dn"
      "disp_neo t = disp_neo s0 @ map lv dn"
      "stress_neo t = stress_neo s0 @ vs" "length vs = length dn"
      unfolding I_def by blast
    define R where "R = solve fe (mesh t) (V t) (material t) (ld i) (u t)"
    define c where "c = (ld i, u t, R)"
    have cl: "call_load c = ld i" "call_guess c = u t" "call_result c = R"
      by (simp_all add: c_def call_load_def call_guess_def call_result_def)
    have w: "warm (u s0) (new @ [c])"
      using new(2,3) cl by (simp add: warm_snoc)
    have ml: "map call_load (new @ [c]) = map ld (dn @ [i])"
      using new(6) cl by simp
    show ?thesis
    proof (cases "neo_step fe n inc i t")
      case (Inr t')
      have calls: "solver_calls t' = solver_calls s0 @ (new @ [c])"
        using neo_step_calls[of fe n inc i t] Inr new(1) by (simp add: c_def R_def ld_def)
      have ut: "u t' = end_field (u s0) (new @ [c])"
        using neo_step_u[of fe n inc i t] Inr cl by (simp add: end_field_snoc R_def ld_def)
      from neo_step_Inr[OF Inr] obtain v where ok:
        "has_converged R" "disp_neo t' = disp_neo t @ [lv i]" "stress_neo t' = stress_neo t @ [v]"
        by (auto simp: R_def ld_def lv_def)
      have "I (dn @ [i]) t'"
        unfolding I_def
        apply (rule exI[of _ "new @ [c]"])
        using calls w ut new ok cl ml by auto
      then show ?thesis using Inr by simp
    next
      case (Inl a)
      obtain e t' where a: "a = (e, t')" by (cases a)
      have calls: "solver_calls t' = solver_calls s0 @ (new @ [c])"
        using neo_step_calls[of fe n inc i t] Inl a new(1) by (simp add: c_def R_def ld_def)
      have ut: "u t' = end_field (u s0) (new @ [c])"
        using neo_step_u[of fe n inc i t] Inl a cl by (simp add: end_field_snoc R_def ld_def)
      from neo_step_Inl[of fe n inc i t e t'] Inl a have bad:
        "stress_neo t' = stress_neo t" "e = RuntimeError \<or> e = ValueError \<or> e = IndexError"
        "if e = RuntimeError then \<not> has_converged R \<and> disp_neo t' = disp_neo t
         else has_converged R \<and> disp_neo t' = disp_neo t @ [lv i]"
        unfolding R_def ld_def lv_def by blast+
      have "Q (dn @ [i]) e t'"
        unfolding Q_def
        apply (rule exI[of _ "new @ [c]"])
        using calls w ut new bad cl ml by (auto split: if_splits)
      then show ?thesis using Inl a by simp
    qed
  qed
  from for_loop_rule[where I = I and Q = Q and js = js and body = "neo_step fe n inc", OF init step] res
  have fin: "case res of Inr t \<Rightarrow> I js t
             | Inl (e, t) \<Rightarrow> \<exists>m<length js. Q (take (Suc m) js) e t" by simp
  show ?thesis
  proof (cases res)
    case (Inr t)
    with fin have "I js t" by simp
    then obtain new vs where new:
      "solver_calls t = solver_calls s0 @ new" "warm (u s0) new"
      "u t = end_field (u s0) new" "length new = length js"
      "\<forall>c\<in>set new. has_converged (call_result c)"
      "map call_load new = map ld js"
      "disp_neo t = disp_neo s0 @ map lv js"
      "stress_neo t = stress_neo s0 @ vs" "length vs = length js"
      unfolding I_def by blast
    have bl: "\<forall>c\<in>set (butlast new). has_converged (call_result c)"
      using new(5) by (meson in_set_butlastD)
    show ?thesis
      apply (rule exI[of _ new])
      using Inr new bl unfolding ld_def lv_def by simp
  next
    case (Inl a)
    obtain e t where a: "a = (e, t)" by (cases a)
    with fin Inl obtain m where m: "m < length js" "Q (take (Suc m) js) e t" by auto
    from m(2) obtain new vs where new:
      "solver_calls t = solver_calls s0 @ new" "warm (u s0) new"
      "u t = end_field (u s0) new" "length new = length (take (Suc m) js)"
      "\<forall>c\<in>set (butlast new). has_converged (call_result c)"
      "map call_load new = map ld (take (Suc m) js)"
      "e = RuntimeError \<or> e = ValueError \<or> e = IndexError"
      "stress_neo t = stress_neo s0 @ vs" "Suc (length vs) = length (take (Suc m) js)"
      "if e = RuntimeError
        then \<not> has_converged (call_result (last new)) \<and>
             disp_neo t = disp_neo s0 @ map lv (butlast (take (Suc m) js))
        else has_converged (call_result (last new)) \<and>
             disp_neo t = disp_neo s0 @ map lv (take (Suc m) js)"
      unfolding Q_def by blast
    have len: "length new = Suc m" using new(4) m(1) by simp
    have bl: "butlast (take (Suc m) js) = take m js"
      using m(1) by (simp add: butlast_take)
    show ?thesis
      apply (rule exI[of _ new])
      using Inl a new len bl m(1) unfolding ld_def lv_def
      by (auto split: if_splits)
  qed
qed

section \<open>The load-stepping cell\<close>

lemma py_range_2: "py_range 2 = [0, 1]"
  by (simp add: py_range_def eval_nat_numeral upt_rec)

lemma py_range_4: "py_range 4 = [0, 1, 2, 3]"
  by (simp add: py_range_def eval_nat_numeral upt_rec)

lemma py_range_10: "py_range 10 = [0, 1, 2, 3, 4, 5, 6, 7, 8, 9]"
  by (simp add: py_range_def eval_nat_numeral upt_rec)

lemma py_range_neg: "n \<le> 0 \<Longrightarrow> py_range n = []"
  by (simp add: py_range_def)


lemma map_succ_py_range_nat: "map (\<lambda>i. i + 1) (map int [0..<k]) = [1..int k]"
proof (induction k)
  case 0
  then show ?case by simp
next
  case (Suc k)
  have "[1..int (Suc k)] = [1..int k] @ [int k + 1]"
    using upto_rec2[of 1 "int k + 1"] by (simp add: add.commute)
  then show ?case using Suc by simp
qed

lemma map_succ_py_range: "map (\<lambda>i. f (i + 1)) (py_range n) = map f [1..n]"
proof -
  have "map (\<lambda>i. f (i + 1)) (py_range n) = map f (map (\<lambda>i. i + 1) (py_range n))"
    by (simp add: comp_def)
  also have "map (\<lambda>i. i + 1) (py_range n) = [1..int (nat n)]"
    unfolding py_range_def by (rule map_succ_py_range_nat)
  also have "[1..int (nat n)] = [1..n]"
    by (cases "0 \<le> n") simp_all
  finally show ?thesis .
qed

lemma length_py_range: "length (py_range n) = nat n"
  by (simp add: py_range_def)


lemma load_stepping_loop:
  assumes "n \<noteq> 0"
  shows "load_stepping fe n L s =
           for_loop (neo_step fe n (fl_div L (fl_of_int n))) (py_range n)
             (s\<lparr>u := map (\<lambda>_. 0) (u s), disp_neo := [0], stress_neo := [0]\<rparr>)"
  using assms by (simp add: load_stepping_def Let_def)

lemma load_stepping_summary:
  assumes n: "n \<noteq> 0" and res: "res = load_stepping fe n L s"
    and new: "new = new_calls s res"
  shows "warm (map (\<lambda>_. 0) (u s)) new \<and>
         u (final res) = end_field (map (\<lambda>_. 0) (u s)) new \<and>
         (\<forall>c\<in>set (butlast new). has_converged (call_result c)) \<and>
         length new \<le> nat n \<and>
         map call_load new =
           map (\<lambda>i. Displacement (fl_mul (fl_div L (fl_of_int n)) (fl_of_int (i + 1)), 0, 0))
             (take (length new) (py_range n)) \<and>
         (case res of
            Inr t \<Rightarrow>
              length new = nat n \<and>
              (\<forall>c\<in>set new. has_converged (call_result c)) \<and>
              disp_neo t = 0 # map (\<lambda>i. fl_mul (fl_div L (fl_of_int n)) (fl_of_int (i + 1))) (py_range n) \<and>
              (\<exists>vs. stress_neo t = 0 # vs \<and> length vs = nat n)
          | Inl (e, t) \<Rightarrow>
              new \<noteq> [] \<and> (e = RuntimeError \<or> e = ValueError \<or> e = IndexError) \<and>
              (\<exists>vs. stress_neo t = 0 # vs \<and> Suc (length vs) = length new) \<and>
              (if e = RuntimeError
               then \<not> has_converged (call_result (last new)) \<and>
                    disp_neo t = 0 # map (\<lambda>i. fl_mul (fl_div L (fl_of_int n)) (fl_of_int (i + 1)))
                                      (take (length new - 1) (py_range n))
               else has_converged (call_result (last new)) \<and>
                    disp_neo t = 0 # map (\<lambda>i. fl_mul (fl_div L (fl_of_int n)) (fl_of_int (i + 1)))
                                      (take (length new) (py_range n))))"
proof -
  let ?s0 = "s\<lparr>u := map (\<lambda>_. 0) (u s), disp_neo := [0], stress_neo := [0]\<rparr>"
  have r: "res = for_loop (neo_step fe n (fl_div L (fl_of_int n))) (py_range n) ?s0"
    using res load_stepping_loop[OF n] by simp
  from neo_loop_summary[OF r] obtain new' where new':
    "solver_calls (final res) = solver_calls ?s0 @ new'"
    "warm (u ?s0) new'" "u (final res) = end_field (u ?s0) new'"
    "\<forall>c\<in>set (butlast new'). has_converged (call_result c)"
    "length new' \<le> length (py_range n)"
    "map call_load new' =
       map (\<lambda>i. Displacement (fl_mul (fl_div L (fl_of_int n)) (fl_of_int (i + 1)), 0, 0))
         (take (length new') (py_range n))"
    "case res of
       Inr t \<Rightarrow>
         length new' = length (py_range n) \<and>
         (\<forall>c\<in>set new'. has_converged (call_result c)) \<and>
         disp_neo t = disp_neo ?s0 @ map (\<lambda>i. fl_mul (fl_div L (fl_of_int n)) (fl_of_int (i + 1))) (py_range n) \<and>
         (\<exists>vs. stress_neo t = stress_neo ?s0 @ vs \<and> length vs = length (py_range n))
     | Inl (e, t) \<Rightarrow>
         new' \<noteq> [] \<and> (e = RuntimeError \<or> e = ValueError \<or> e = IndexError) \<and>
         (\<exists>vs. stress_neo t = stress_neo ?s0 @ vs \<and> Suc (length vs) = length new') \<and>
         (if e = RuntimeError
          then \<not> has_converged (call_result (last new')) \<and>
               disp_neo t = disp_neo ?s0 @ map (\<lambda>i. fl_mul (fl_div L (fl_of_int n)) (fl_of_int (i + 1)))
                                 (take (length new' - 1) (py_range n))
          else has_converged (call_result (last new')) \<and>
               disp_neo t = disp_neo ?s0 @ map (\<lambda>i. fl_mul (fl_div L (fl_of_int n)) (fl_of_int (i + 1)))
                                 (take (length new') (py_range n)))"
    by blast
  have eq: "new = new'" using new new'(1) by (simp add: new_calls_def)
  show ?thesis
    unfolding eq using new' by (auto simp: length_py_range split: sum.splits)
qed


lemma warm_nth:
  "warm f cs \<Longrightarrow> Suc k < length cs \<Longrightarrow>
     call_guess (cs ! Suc k) = result_field (call_result (cs ! k))"
proof (induction cs arbitrary: f k)
  case Nil
  then show ?case by simp
next
  case (Cons c cs)
  show ?case
  proof (cases k)
    case 0
    then obtain d ds where "cs = d # ds" using Cons.prems(2) by (cases cs) auto
    then show ?thesis using Cons.prems(1) 0 by simp
  next
    case (Suc j)
    have w: "warm (result_field (call_result c)) cs" using Cons.prems(1) by simp
    have l: "Suc j < length cs" using Cons.prems(2) Suc by simp
    from Cons.IH[OF w l] show ?thesis using Suc by simp
  qed
qed

lemma converged_result: "has_converged R \<Longrightarrow> R = Converged (result_field R)"
  by (cases R) simp_all

lemma load_stepping_zero:
  "load_stepping fe 0 L s = Inl (ZeroDivisionError, s\<lparr>u := map (\<lambda>_. 0) (u s)\<rparr>)"
  by (simp add: load_stepping_def Let_def)

lemma new_calls_zero: "new_calls s (load_stepping fe 0 L s) = []"
  by (simp add: load_stepping_zero new_calls_def)

lemma nth_py_range: "k < nat n \<Longrightarrow> py_range n ! k = int k"
  by (simp add: py_range_def)

lemma nth_call_load:
  assumes "map call_load new = map g (take (length new) (py_range n))"
    and "k < length new" and "length new \<le> nat n"
  shows "call_load (new ! k) = g (int k)"
proof -
  have "call_load (new ! k) = map call_load new ! k" using assms(2) by simp
  also have "\<dots> = map g (take (length new) (py_range n)) ! k" using assms(1) by simp
  also have "\<dots> = g (py_range n ! k)"
    using assms(2,3) by (simp add: length_py_range)
  also have "\<dots> = g (int k)" using assms(2,3) by (simp add: nth_py_range)
  finally show ?thesis .
qed

text \<open>
  C2. In a run of the load-stepping cell, whenever two solves follow one another, the
  earlier one has converged and the field it returned is exactly the initial guess of the
  later one: nothing between the two solves changes \<open>u\<close>. Solve number \<open>k + 1\<close> is the one
  at load \<open>increment * (k + 1)\<close>.
\<close>

theorem load_stepping_warm_start:
  assumes "Suc k < length (new_calls s (load_stepping fe n L s))"
  shows "call_result (new_calls s (load_stepping fe n L s) ! k) =
           Converged (call_guess (new_calls s (load_stepping fe n L s) ! Suc k)) \<and>
         call_load (new_calls s (load_stepping fe n L s) ! k) =
           Displacement (fl_mul (fl_div L (fl_of_int n)) (fl_of_int (int k + 1)), 0, 0) \<and>
         call_load (new_calls s (load_stepping fe n L s) ! Suc k) =
           Displacement (fl_mul (fl_div L (fl_of_int n)) (fl_of_int (int (Suc k) + 1)), 0, 0)"
proof -
  define res where "res = load_stepping fe n L s"
  define new where "new = new_calls s res"
  have k: "Suc k < length new" using assms by (simp add: new_def res_def)
  have n: "n \<noteq> 0"
  proof
    assume "n = 0"
    then have "new = []" by (simp add: new_def res_def new_calls_zero)
    then show False using k by simp
  qed
  note sm = load_stepping_summary[OF n res_def new_def]
  have w: "warm (map (\<lambda>_. 0) (u s)) new" using sm by blast
  have bl: "\<forall>c\<in>set (butlast new). has_converged (call_result c)" using sm by blast
  have len: "length new \<le> nat n" using sm by blast
  have lds: "map call_load new =
           map (\<lambda>i. Displacement (fl_mul (fl_div L (fl_of_int n)) (fl_of_int (i + 1)), 0, 0))
             (take (length new) (py_range n))" using sm by blast
  have "new ! k \<in> set (butlast new)"
    using k by (metis Suc_lessD length_butlast less_diff_conv nth_butlast nth_mem Suc_eq_plus1)
  then have "has_converged (call_result (new ! k))" using bl by blast
  then have "call_result (new ! k) = Converged (result_field (call_result (new ! k)))"
    by (rule converged_result)
  moreover have "call_guess (new ! Suc k) = result_field (call_result (new ! k))"
    by (rule warm_nth[OF w k])
  ultimately have a: "call_result (new ! k) = Converged (call_guess (new ! Suc k))" by simp
  have b: "call_load (new ! k) = Displacement (fl_mul (fl_div L (fl_of_int n)) (fl_of_int (int k + 1)), 0, 0)"
    using nth_call_load[OF lds _ len, of k] k by simp
  have c: "call_load (new ! Suc k) = Displacement (fl_mul (fl_div L (fl_of_int n)) (fl_of_int (int (Suc k) + 1)), 0, 0)"
    using nth_call_load[OF lds k len] by simp
  show ?thesis using a b c unfolding new_def res_def by blast
qed

text \<open>
  C3. When a solve of the load-stepping cell does not converge, the cell ends there with
  the solver's RuntimeError. That solve is the last call made: every scheduled load up to
  it was tried once, in order, and no other load; the loads recorded are those of the
  steps that converged before it, the failing step records nothing, and \<open>u\<close> holds what
  the failed solve left.
\<close>

theorem load_stepping_failure_is_fatal:
  assumes "k < length (new_calls s (load_stepping fe n L s))"
    and "\<not> has_converged (call_result (new_calls s (load_stepping fe n L s) ! k))"
  shows "\<exists>t. load_stepping fe n L s = Inl (RuntimeError, t) \<and>
           length (new_calls s (load_stepping fe n L s)) = Suc k \<and>
           map call_load (new_calls s (load_stepping fe n L s)) =
             map (\<lambda>i. Displacement (fl_mul (fl_div L (fl_of_int n)) (fl_of_int (i + 1)), 0, 0))
               (take (Suc k) (py_range n)) \<and>
           disp_neo t = 0 # map (\<lambda>i. fl_mul (fl_div L (fl_of_int n)) (fl_of_int (i + 1))) (take k (py_range n)) \<and>
           length (stress_neo t) = Suc k \<and>
           u t = result_field (call_result (new_calls s (load_stepping fe n L s) ! k))"
proof -
  define res where "res = load_stepping fe n L s"
  define new where "new = new_calls s res"
  have k: "k < length new" and bad: "\<not> has_converged (call_result (new ! k))"
    using assms by (simp_all add: new_def res_def)
  have n: "n \<noteq> 0"
  proof
    assume "n = 0"
    then have "new = []" by (simp add: new_def res_def new_calls_zero)
    then show False using k by simp
  qed
  note sm = load_stepping_summary[OF n res_def new_def]
  have bl: "\<forall>c\<in>set (butlast new). has_converged (call_result c)" using sm by blast
  have lds: "map call_load new =
           map (\<lambda>i. Displacement (fl_mul (fl_div L (fl_of_int n)) (fl_of_int (i + 1)), 0, 0))
             (take (length new) (py_range n))" using sm by blast
  have uf: "u (final res) = end_field (map (\<lambda>_. 0) (u s)) new" using sm by blast
  have last: "Suc k = length new"
  proof (rule ccontr)
    assume "Suc k \<noteq> length new"
    then have "k < length (butlast new)" using k by simp
    then have "new ! k \<in> set (butlast new)" by (metis nth_butlast nth_mem)
    then show False using bl bad by blast
  qed
  have lk: "last new = new ! k" using last k by (metis diff_Suc_1 last_conv_nth length_0_conv not_less_zero)
  show ?thesis
  proof (cases res)
    case (Inr t)
    then have "\<forall>c\<in>set new. has_converged (call_result c)" using sm by simp
    then show ?thesis using bad k by (meson nth_mem)
  next
    case (Inl a)
    obtain e t where a: "a = (e, t)" by (cases a)
    from sm Inl a have q:
      "\<exists>vs. stress_neo t = 0 # vs \<and> Suc (length vs) = length new"
      "if e = RuntimeError
       then \<not> has_converged (call_result (last new)) \<and>
            disp_neo t = 0 # map (\<lambda>i. fl_mul (fl_div L (fl_of_int n)) (fl_of_int (i + 1)))
                              (take (length new - 1) (py_range n))
       else has_converged (call_result (last new)) \<and>
            disp_neo t = 0 # map (\<lambda>i. fl_mul (fl_div L (fl_of_int n)) (fl_of_int (i + 1)))
                              (take (length new) (py_range n))"
      by simp_all
    have e: "e = RuntimeError" using q(2) bad lk by (auto split: if_splits)
    have d: "disp_neo t = 0 # map (\<lambda>i. fl_mul (fl_div L (fl_of_int n)) (fl_of_int (i + 1))) (take k (py_range n))"
      using q(2) e last by (metis diff_Suc_1)
    have st: "length (stress_neo t) = Suc k" using q(1) last by auto
    have ut: "u t = result_field (call_result (new ! k))"
      using uf Inl a lk k by (auto simp: end_field_def)
    have "res = Inl (RuntimeError, t)" using Inl a e by simp
    then show ?thesis using last lds d st ut unfolding new_def res_def
      by (metis (no_types, lifting))
  qed
qed

text \<open>
  C6. Whatever its outcome, the load-stepping cell leaves the mesh, the function spaces
  and the material as they were (and also the pressure constant and \<open>total_force\<close>):
  among the variables of the problem it writes only \<open>r\<close>, \<open>u\<close> and the two result lists.
\<close>

theorem load_stepping_frame:
  fixes s :: "('m, 'w) notebook"
  shows "mesh (final (load_stepping fe n L s)) = mesh s \<and>
   V (final (load_stepping fe n L s)) = V s \<and>
   Z (final (load_stepping fe n L s)) = Z s \<and>
   material (final (load_stepping fe n L s)) = material s \<and>
   pressure (final (load_stepping fe n L s)) = pressure s \<and>
   total_force (final (load_stepping fe n L s)) = total_force s"
proof (cases "n = 0")
  case True
  then show ?thesis by (simp add: load_stepping_zero)
next
  case False
  let ?s0 = "s\<lparr>u := map (\<lambda>_. 0) (u s), disp_neo := [0], stress_neo := [0]\<rparr>"
  let ?P = "\<lambda>t :: ('m, 'w) notebook. mesh t = mesh s \<and> V t = V s \<and> Z t = Z s \<and> material t = material s \<and>
                pressure t = pressure s \<and> total_force t = total_force s"
  have "?P (final (for_loop (neo_step fe n (fl_div L (fl_of_int n))) (py_range n) ?s0))"
  proof (rule for_loop_final[where P = ?P])
    show "?P ?s0" by simp
  next
    fix i t assume "?P t"
    then show "?P (final (neo_step fe n (fl_div L (fl_of_int n)) i t))"
      using neo_step_frame[of fe n "fl_div L (fl_of_int n)" i t] by simp
  qed
  then show ?thesis using load_stepping_loop[OF False, of fe L s] by simp
qed

text \<open>
  C5, as the code has it. With \<open>n_steps = 0\<close> the cell raises ZeroDivisionError at
  \<open>max_disp/n_steps\<close>, after the reset of \<open>u\<close> and before the result lists exist or the
  solver is called. A negative step count is not rejected: \<open>range\<close> is empty, the body
  never runs and the cell ends normally with the one-point lists.
\<close>

theorem load_stepping_zero_and_negative:
  "load_stepping fe 0 L s = Inl (ZeroDivisionError, s\<lparr>u := map (\<lambda>_. 0) (u s)\<rparr>) \<and>
   (n < 0 \<longrightarrow>
      load_stepping fe n L s =
        Inr (s\<lparr>u := map (\<lambda>_. 0) (u s), disp_neo := [0], stress_neo := [0]\<rparr>))"
  by (simp add: load_stepping_zero load_stepping_loop py_range_neg)

lemma neo_step_sample:
  assumes "neo_step fe n inc i t = Inr t'"
  shows "\<exists>v. stress_neo t' = stress_neo t @ [v] \<and>
           get_stress (Z t) (project fe (mesh t) (Z t) (material t) (u t')) (5, 0.5, 0.5) 0 = Inr v"
  using assms
  by (auto simp: neo_step_def call_solve_def print_step_def Let_def
      split: solve_result.splits sum.splits)

lemma neo_loop_records:
  fixes s0 :: "('m, 'w) notebook"
  assumes fin: "for_loop (neo_step fe n inc) js s0 = Inr t"
  shows "\<exists>new vs. solver_calls t = solver_calls s0 @ new \<and>
           stress_neo t = stress_neo s0 @ vs \<and>
           map Inr vs =
             map (\<lambda>c. get_stress (Z s0)
                        (project fe (mesh s0) (Z s0) (material s0) (result_field (call_result c)))
                        (5, 0.5, 0.5) 0) new \<and>
           map call_result new =
             map (\<lambda>c. solve fe (mesh s0) (V s0) (material s0) (call_load c) (call_guess c)) new"
proof -
  define smp where "smp = (\<lambda>c. get_stress (Z s0)
      (project fe (mesh s0) (Z s0) (material s0) (result_field (call_result c))) (5, 0.5, 0.5) 0)"
  define slv where
    "slv = (\<lambda>c. solve fe (mesh s0) (V s0) (material s0) (call_load c) (call_guess c))"
  define I where "I = (\<lambda>(dn :: int list) (t :: ('m, 'w) notebook).
     mesh t = mesh s0 \<and> V t = V s0 \<and> Z t = Z s0 \<and> material t = material s0 \<and>
     (\<exists>new vs. solver_calls t = solver_calls s0 @ new \<and> stress_neo t = stress_neo s0 @ vs \<and>
        map Inr vs = map smp new \<and> map call_result new = map slv new))"
  define Q where "Q = (\<lambda>(dn :: int list) (e :: py_error) (t :: ('m, 'w) notebook). True)"
  have init: "I [] s0" by (simp add: I_def)
  have step: "case neo_step fe n inc i t of
                Inr t' \<Rightarrow> I (dn @ [i]) t' | Inl (e, t') \<Rightarrow> Q (dn @ [i]) e t'"
    if inv: "I dn t" for dn i t
  proof (cases "neo_step fe n inc i t")
    case (Inl a)
    then show ?thesis by (cases a) (simp add: Q_def)
  next
    case (Inr t')
    from inv obtain new vs where fr: "mesh t = mesh s0" "V t = V s0" "Z t = Z s0"
      "material t = material s0"
      and new: "solver_calls t = solver_calls s0 @ new" "stress_neo t = stress_neo s0 @ vs"
      "map Inr vs = map smp new" "map call_result new = map slv new"
      unfolding I_def by blast
    define R where "R = solve fe (mesh t) (V t) (material t)
        (Displacement (fl_mul inc (fl_of_int (i + 1)), 0, 0)) (u t)"
    define c where "c = (Displacement (fl_mul inc (fl_of_int (i + 1)), 0, 0), u t, R)"
    have cl: "call_load c = Displacement (fl_mul inc (fl_of_int (i + 1)), 0, 0)" "call_guess c = u t"
      "call_result c = R"
      by (simp_all add: c_def call_load_def call_guess_def call_result_def)
    have calls: "solver_calls t' = solver_calls s0 @ (new @ [c])"
      using neo_step_calls[of fe n inc i t] Inr new(1) by (simp add: c_def R_def)
    have ut: "u t' = result_field R"
      using neo_step_u[of fe n inc i t] Inr by (simp add: R_def)
    from neo_step_sample[OF Inr] obtain v where v: "stress_neo t' = stress_neo t @ [v]"
      "get_stress (Z t) (project fe (mesh t) (Z t) (material t) (u t')) (5, 0.5, 0.5) 0 = Inr v"
      by blast
    have sv: "smp c = Inr v" using v(2) ut cl fr by (simp add: smp_def)
    have sl: "slv c = call_result c" using cl fr by (simp add: slv_def R_def)
    have st: "stress_neo t' = stress_neo s0 @ (vs @ [v])" using v(1) new(2) by simp
    have m1: "map Inr (vs @ [v]) = map smp (new @ [c])" using new(3) sv by simp
    have m2: "map call_result (new @ [c]) = map slv (new @ [c])" using new(4) sl by simp
    have frame: "mesh t' = mesh s0 \<and> V t' = V s0 \<and> Z t' = Z s0 \<and> material t' = material s0"
      using neo_step_frame[of fe n inc i t] Inr fr by simp
    have "I (dn @ [i]) t'"
      unfolding I_def using frame calls st m1 m2 by blast
    then show ?thesis using Inr by simp
  qed
  from for_loop_rule[where I = I and Q = Q and js = js and body = "neo_step fe n inc",
      OF init step] fin
  have "I js t" by simp
  then show ?thesis unfolding I_def smp_def slv_def by blast
qed

lemma schedule_monotone:
  fixes c :: real
  shows "0 \<le> c \<Longrightarrow> sorted_wrt (\<le>) (map (\<lambda>i. fl_mul c (fl_of_int i)) [1..n])"
    and "c \<le> 0 \<Longrightarrow> sorted_wrt (\<lambda>a b. b \<le> a) (map (\<lambda>i. fl_mul c (fl_of_int i)) [1..n])"
proof -
  assume c: "0 \<le> c"
  have "sorted_wrt (\<lambda>x y. fl_mul c (fl_of_int x) \<le> fl_mul c (fl_of_int y)) [1..n]"
  proof (rule sorted_wrt_mono_rel[OF _ sorted_wrt_upto])
    fix x y :: int assume "x < y"
    then have "fl_of_int x \<le> fl_of_int y" by (intro fl_of_int_mono) simp
    then have "c * fl_of_int x \<le> c * fl_of_int y" using c by (rule mult_left_mono)
    then show "fl_mul c (fl_of_int x) \<le> fl_mul c (fl_of_int y)"
      unfolding fl_mul_def by (rule double_round_mono)
  qed
  then show "sorted_wrt (\<le>) (map (\<lambda>i. fl_mul c (fl_of_int i)) [1..n])"
    by (simp add: sorted_wrt_map)
next
  assume c: "c \<le> 0"
  have "sorted_wrt (\<lambda>x y. fl_mul c (fl_of_int y) \<le> fl_mul c (fl_of_int x)) [1..n]"
  proof (rule sorted_wrt_mono_rel[OF _ sorted_wrt_upto])
    fix x y :: int assume "x < y"
    then have "fl_of_int x \<le> fl_of_int y" by (intro fl_of_int_mono) simp
    then have "c * fl_of_int y \<le> c * fl_of_int x" using c by (rule mult_left_mono_neg)
    then show "fl_mul c (fl_of_int y) \<le> fl_mul c (fl_of_int x)"
      unfolding fl_mul_def by (rule double_round_mono)
  qed
  then show "sorted_wrt (\<lambda>a b. b \<le> a) (map (\<lambda>i. fl_mul c (fl_of_int i)) [1..n])"
    by (simp add: sorted_wrt_map)
qed

lemma increment_sign:
  assumes "0 < n"
  shows "0 \<le> L \<Longrightarrow> 0 \<le> fl_div L (fl_of_int n)"
    and "L \<le> 0 \<Longrightarrow> fl_div L (fl_of_int n) \<le> 0"
proof -
  have n: "0 < fl_of_int n" using fl_of_int_pos[of n] assms by simp
  show "0 \<le> fl_div L (fl_of_int n)" if "0 \<le> L"
    unfolding fl_div_def using that n by (intro double_round_nonneg) simp
  show "fl_div L (fl_of_int n) \<le> 0" if "L \<le> 0"
  proof -
    have "L / fl_of_int n \<le> 0" using that n by (simp add: divide_nonpos_pos)
    then have "double_round (L / fl_of_int n) \<le> double_round 0" by (rule double_round_mono)
    then show ?thesis by (simp add: fl_div_def)
  qed
qed

text \<open>
  C1, as the code has it. A run of the cell that finishes, so that every solve converged
  and every stress sample was defined, has called the solver at exactly the \<open>n\<close> loads
  \<open>increment * 1, \<dots>, increment * n\<close> with \<open>increment = L / n\<close>, the quotient and each
  product rounded to a double, in this order, each call
  being the library's solve at that load from the guess it was given. The loads do not
  decrease when \<open>L \<ge> 0\<close> and do not increase when \<open>L \<le> 0\<close>. The recorded loads are 0
  followed by these, the recorded stresses are 0 followed by the sample taken from the
  field each solve returned, and both lists have \<open>n + 1\<close> entries. With the notebook's
  values \<open>n_steps = 10\<close> and \<open>max_disp = 10.0\<close> the recorded loads are \<open>0, 1, \<dots>, 10\<close>.
\<close>

theorem load_stepping_visits_schedule:
  fixes s :: "('m, 'w) notebook"
  assumes "load_stepping fe n L s = Inr t"
  shows "map call_load (new_calls s (Inr t)) =
           map (\<lambda>i. Displacement (fl_mul (fl_div L (fl_of_int n)) (fl_of_int i), 0, 0)) [1..n] \<and>
         map call_result (new_calls s (Inr t)) =
           map (\<lambda>c. solve fe (mesh s) (V s) (material s) (call_load c) (call_guess c))
             (new_calls s (Inr t)) \<and>
         (0 \<le> L \<longrightarrow> sorted_wrt (\<le>) (map (\<lambda>i. fl_mul (fl_div L (fl_of_int n)) (fl_of_int i)) [1..n])) \<and>
         (L \<le> 0 \<longrightarrow> sorted_wrt (\<lambda>a b. b \<le> a) (map (\<lambda>i. fl_mul (fl_div L (fl_of_int n)) (fl_of_int i)) [1..n])) \<and>
         disp_neo t = 0 # map (\<lambda>i. fl_mul (fl_div L (fl_of_int n)) (fl_of_int i)) [1..n] \<and>
         length (disp_neo t) = nat n + 1 \<and>
         length (stress_neo t) = nat n + 1 \<and> hd (stress_neo t) = 0 \<and>
         map Inr (tl (stress_neo t)) =
           map (\<lambda>c. get_stress (Z s)
                      (project fe (mesh s) (Z s) (material s) (result_field (call_result c)))
                      (5, 0.5, 0.5) 0)
             (new_calls s (Inr t)) \<and>
         (n = 10 \<and> L = 10 \<longrightarrow>
            cell29 fe s = Inr t \<and> disp_neo t = [0, 1, 2, 3, 4, 5, 6, 7, 8, 9, 10] \<and>
            length (disp_neo t) = 11)"
proof -
  let ?s0 = "s\<lparr>u := map (\<lambda>_. 0) (u s), disp_neo := [0], stress_neo := [0]\<rparr>"
  have n: "n \<noteq> 0"
  proof
    assume "n = 0"
    then show False using assms by (simp add: load_stepping_zero)
  qed
  define new where "new = new_calls s (load_stepping fe n L s)"
  have nw: "new = new_calls s (Inr t)" using assms by (simp add: new_def)
  from load_stepping_summary[where fe = fe and L = L and s = s, OF n refl new_def] assms
  have len: "length new = nat n"
    and lds: "map call_load new =
           map (\<lambda>i. Displacement (fl_mul (fl_div L (fl_of_int n)) (fl_of_int (i + 1)), 0, 0))
             (take (length new) (py_range n))"
    and d: "disp_neo t = 0 # map (\<lambda>i. fl_mul (fl_div L (fl_of_int n)) (fl_of_int (i + 1))) (py_range n)"
    and st: "\<exists>vs. stress_neo t = 0 # vs \<and> length vs = nat n"
    by simp_all
  have lds': "map call_load new = map (\<lambda>i. Displacement (fl_mul (fl_div L (fl_of_int n)) (fl_of_int i), 0, 0)) [1..n]"
    using lds len map_succ_py_range[of "\<lambda>i. Displacement (fl_mul (fl_div L (fl_of_int n)) (fl_of_int i), 0, 0)" n]
    by (simp add: length_py_range)
  have d': "disp_neo t = 0 # map (\<lambda>i. fl_mul (fl_div L (fl_of_int n)) (fl_of_int i)) [1..n]"
    using d map_succ_py_range[of "\<lambda>i. fl_mul (fl_div L (fl_of_int n)) (fl_of_int i)" n] by simp
  have ld: "length (disp_neo t) = nat n + 1"
    using d by (simp add: length_py_range)
  have loop: "for_loop (neo_step fe n (fl_div L (fl_of_int n))) (py_range n) ?s0 = Inr t"
    using assms load_stepping_loop[OF n, of fe L s] by simp
  from neo_loop_records[OF loop] obtain new' vs where rec:
    "solver_calls t = solver_calls ?s0 @ new'" "stress_neo t = stress_neo ?s0 @ vs"
    "map Inr vs =
       map (\<lambda>c. get_stress (Z ?s0)
                  (project fe (mesh ?s0) (Z ?s0) (material ?s0) (result_field (call_result c)))
                  (5, 0.5, 0.5) 0) new'"
    "map call_result new' =
       map (\<lambda>c. solve fe (mesh ?s0) (V ?s0) (material ?s0) (call_load c) (call_guess c)) new'"
    by blast
  have eq: "new' = new" using rec(1) nw by (simp add: new_calls_def)
  have tl: "tl (stress_neo t) = vs" using rec(2) by simp
  have res: "map call_result new =
           map (\<lambda>c. solve fe (mesh s) (V s) (material s) (call_load c) (call_guess c)) new"
    using rec(4) eq by simp
  have smp: "map Inr (tl (stress_neo t)) =
           map (\<lambda>c. get_stress (Z s)
                      (project fe (mesh s) (Z s) (material s) (result_field (call_result c)))
                      (5, 0.5, 0.5) 0) new"
    using rec(3) eq tl by simp
  have up: "0 \<le> L \<longrightarrow> sorted_wrt (\<le>) (map (\<lambda>i. fl_mul (fl_div L (fl_of_int n)) (fl_of_int i)) [1..n])"
  proof (cases "0 < n")
    case True
    then show ?thesis
      using schedule_monotone(1)[of "fl_div L (fl_of_int n)" n] increment_sign(1)[of n L] by simp
  next
    case False
    then show ?thesis by simp
  qed
  have down: "L \<le> 0 \<longrightarrow>
      sorted_wrt (\<lambda>a b. b \<le> a) (map (\<lambda>i. fl_mul (fl_div L (fl_of_int n)) (fl_of_int i)) [1..n])"
  proof (cases "0 < n")
    case True
    then show ?thesis
      using schedule_monotone(2)[of "fl_div L (fl_of_int n)" n] increment_sign(2)[of n L] by simp
  next
    case False
    then show ?thesis by simp
  qed
  have ten: "n = 10 \<and> L = 10 \<longrightarrow>
            cell29 fe s = Inr t \<and> disp_neo t = [0, 1, 2, 3, 4, 5, 6, 7, 8, 9, 10] \<and>
            length (disp_neo t) = 11"
  proof
    assume nl: "n = 10 \<and> L = 10"
    then have "disp_neo t = [0, 1, 2, 3, 4, 5, 6, 7, 8, 9, 10]"
      using d by (simp add: py_range_10 fl_defs)
    then show "cell29 fe s = Inr t \<and> disp_neo t = [0, 1, 2, 3, 4, 5, 6, 7, 8, 9, 10] \<and>
            length (disp_neo t) = 11"
      using assms nl by (simp add: cell29_def)
  qed
  show ?thesis
    using lds' res up down d' ld st smp ten unfolding nw by auto
qed

lemma for_loop_rel:
  assumes "R s s'"
    and "\<And>i t t'. R t t' \<Longrightarrow>
           (case body i t of
              Inr a \<Rightarrow> (\<exists>b. body' i t' = Inr b \<and> R a b)
            | Inl (e, a) \<Rightarrow> (\<exists>b. body' i t' = Inl (e, b) \<and> R a b))"
  shows "case for_loop body js s of
           Inr a \<Rightarrow> (\<exists>b. for_loop body' js s' = Inr b \<and> R a b)
         | Inl (e, a) \<Rightarrow> (\<exists>b. for_loop body' js s' = Inl (e, b) \<and> R a b)"
  using assms(1)
proof (induction js arbitrary: s s')
  case Nil
  then show ?case by simp
next
  case (Cons j js)
  note st = assms(2)[OF Cons.prems, of j]
  show ?case
  proof (cases "body j s")
    case (Inl x)
    obtain e a where x: "x = (e, a)" by (cases x)
    with st Inl obtain b where "body' j s' = Inl (e, b)" "R a b" by auto
    then show ?thesis using Inl x by simp
  next
    case (Inr a)
    with st obtain b where b: "body' j s' = Inr b" "R a b" by auto
    from Cons.IH[OF b(2)] show ?thesis using Inr b(1)
      by (cases "for_loop body js a") auto
  qed
qed

lemma neo_step_rel:
  fixes t t' s s' :: "('m, 'w) notebook"
  defines "R \<equiv> (\<lambda>(a :: ('m, 'w) notebook) (b :: ('m, 'w) notebook).
      mesh a = mesh b \<and> V a = V b \<and> Z a = Z b \<and> material a = material b \<and>
      u a = u b \<and> disp_neo a = disp_neo b \<and> stress_neo a = stress_neo b \<and>
      (\<exists>new. solver_calls a = solver_calls s @ new \<and> solver_calls b = solver_calls s' @ new))"
  assumes "R t t'"
  shows "case neo_step fe n inc i t of
           Inr a \<Rightarrow> (\<exists>b. neo_step fe n inc i t' = Inr b \<and> R a b)
         | Inl (e, a) \<Rightarrow> (\<exists>b. neo_step fe n inc i t' = Inl (e, b) \<and> R a b)"
  using assms(2) unfolding R_def
  by (auto simp: neo_step_def call_solve_def print_step_def Let_def
      split: solve_result.splits sum.splits)

text \<open>
  C4. Two runs of the cell with the same step count and target load, started from two
  namespaces that agree on the problem (mesh, function spaces, material) and on the size
  of \<open>u\<close>, but may differ in everything the cell resets, make the same solver calls, end
  alike (both finish, or both raise the same error) and leave the same \<open>u\<close> and the same
  two result lists. The solver is a function of its arguments here.
\<close>

theorem load_stepping_deterministic:
  fixes s s' :: "('m, 'w) notebook"
  assumes "n \<noteq> 0"
    and "mesh s' = mesh s" and "V s' = V s" and "Z s' = Z s" and "material s' = material s"
    and "length (u s') = length (u s)"
  shows "u (final (load_stepping fe n L s')) = u (final (load_stepping fe n L s)) \<and>
         disp_neo (final (load_stepping fe n L s')) = disp_neo (final (load_stepping fe n L s)) \<and>
         stress_neo (final (load_stepping fe n L s')) = stress_neo (final (load_stepping fe n L s)) \<and>
         new_calls s' (load_stepping fe n L s') = new_calls s (load_stepping fe n L s) \<and>
         raised (load_stepping fe n L s') = raised (load_stepping fe n L s)"
proof -
  let ?a = "s\<lparr>u := map (\<lambda>_. 0) (u s), disp_neo := [0], stress_neo := [0]\<rparr>"
  let ?b = "s'\<lparr>u := map (\<lambda>_. 0) (u s'), disp_neo := [0], stress_neo := [0]\<rparr>"
  define R where "R = (\<lambda>(a :: ('m, 'w) notebook) (b :: ('m, 'w) notebook).
      mesh a = mesh b \<and> V a = V b \<and> Z a = Z b \<and> material a = material b \<and>
      u a = u b \<and> disp_neo a = disp_neo b \<and> stress_neo a = stress_neo b \<and>
      (\<exists>new. solver_calls a = solver_calls s @ new \<and> solver_calls b = solver_calls s' @ new))"
  have z: "map (\<lambda>_. 0::real) (u s) = map (\<lambda>_. 0) (u s')"
    using assms(6) by (simp add: map_replicate_const)
  have init: "R ?a ?b" using assms z by (simp add: R_def)
  have step: "case neo_step fe n (fl_div L (fl_of_int n)) i t of
           Inr a \<Rightarrow> (\<exists>b. neo_step fe n (fl_div L (fl_of_int n)) i t' = Inr b \<and> R a b)
         | Inl (e, a) \<Rightarrow> (\<exists>b. neo_step fe n (fl_div L (fl_of_int n)) i t' = Inl (e, b) \<and> R a b)"
    if "R t t'" for i t t'
    using that neo_step_rel[where t = t and t' = t' and s = s and s' = s' and fe = fe
        and n = n and inc = "fl_div L (fl_of_int n)" and i = i] unfolding R_def by simp
  have rel: "case load_stepping fe n L s of
           Inr a \<Rightarrow> (\<exists>b. load_stepping fe n L s' = Inr b \<and> R a b)
         | Inl (e, a) \<Rightarrow> (\<exists>b. load_stepping fe n L s' = Inl (e, b) \<and> R a b)"
    unfolding load_stepping_loop[OF assms(1)]
    by (rule for_loop_rel[where R = R, OF init step])
  show ?thesis
  proof (cases "load_stepping fe n L s")
    case (Inl x)
    obtain e a where x: "x = (e, a)" by (cases x)
    with rel Inl obtain b where b: "load_stepping fe n L s' = Inl (e, b)" "R a b" by auto
    then show ?thesis using Inl x
      by (auto simp: R_def new_calls_def raised_def)
  next
    case (Inr a)
    with rel obtain b where b: "load_stepping fe n L s' = Inr b" "R a b" by auto
    then show ?thesis using Inr
      by (auto simp: R_def new_calls_def raised_def)
  qed
qed

section \<open>The pressure-loaded benchmark and \<open>refine_benchmark\<close>\<close>







lemma refine_step_Inr:
  assumes "refine_step fe m Vl W (Some tf) steps i l = Inr l'"
  shows "pressures l' = pressures l @ [fl_mul (fl_div tf (fl_of_int steps)) (fl_of_int (i + 1))] \<and>
         map call_load (solves l') =
           map call_load (solves l) @ [Pressure (fl_mul (fl_div tf (fl_of_int steps)) (fl_of_int (i + 1)))]"
  using assms
  by (auto simp: refine_step_def Let_def call_load_def split: solve_result.splits sum.splits)

lemma refine_step_Inl:
  assumes "refine_step fe m Vl W (Some tf) steps i l = Inl (e, l')"
  shows "map call_load (solves l') =
           map call_load (solves l) @ [Pressure (fl_mul (fl_div tf (fl_of_int steps)) (fl_of_int (i + 1)))]"
  using assms
  by (auto simp: refine_step_def Let_def call_load_def split: solve_result.splits sum.splits)

lemma refine_loop_summary:
  assumes res: "res = for_loop (refine_step fe m Vl W (Some tf) steps) js l1"
    and l1: "solves l1 = []"
  shows "map call_load (solves (final res)) =
           map (\<lambda>i. Pressure (fl_mul (fl_div tf (fl_of_int steps)) (fl_of_int (i + 1))))
             (take (length (solves (final res))) js) \<and>
         (\<forall>l. res = Inr l \<longrightarrow>
            pressures l =
              pressures l1 @ map (\<lambda>i. fl_mul (fl_div tf (fl_of_int steps)) (fl_of_int (i + 1))) js \<and>
            length (solves l) = length js)"
proof -
  define pv where "pv = (\<lambda>i::int. fl_mul (fl_div tf (fl_of_int steps)) (fl_of_int (i + 1)))"
  define I where "I = (\<lambda>(dn :: int list) (l :: frame).
     pressures l = pressures l1 @ map pv dn \<and>
     map call_load (solves l) = map (\<lambda>i. Pressure (pv i)) dn)"
  define Q where "Q = (\<lambda>(dn :: int list) (e :: py_error) (l :: frame).
     map call_load (solves l) = map (\<lambda>i. Pressure (pv i)) dn)"
  have init: "I [] l1" using l1 by (simp add: I_def)
  have step: "case refine_step fe m Vl W (Some tf) steps i l of
                Inr l' \<Rightarrow> I (dn @ [i]) l' | Inl (e, l') \<Rightarrow> Q (dn @ [i]) e l'"
    if inv: "I dn l" for dn i l
  proof (cases "refine_step fe m Vl W (Some tf) steps i l")
    case (Inl a)
    obtain e l' where a: "a = (e, l')" by (cases a)
    from refine_step_Inl[of fe m Vl W tf steps i l e l'] Inl a inv
    have "Q (dn @ [i]) e l'" by (simp add: Q_def I_def pv_def)
    then show ?thesis using Inl a by simp
  next
    case (Inr l')
    from refine_step_Inr[OF Inr] inv have "I (dn @ [i]) l'" by (simp add: I_def pv_def)
    then show ?thesis using Inr by simp
  qed
  from for_loop_rule[where I = I and Q = Q and js = js
      and body = "refine_step fe m Vl W (Some tf) steps", OF init step] res
  have fin: "case res of Inr l \<Rightarrow> I js l
             | Inl (e, l) \<Rightarrow> \<exists>k<length js. Q (take (Suc k) js) e l" by simp
  show ?thesis
  proof (cases res)
    case (Inr l)
    with fin have i: "I js l" by simp
    then have len: "length (solves l) = length js"
      unfolding I_def by (metis length_map)
    show ?thesis using Inr i len by (simp add: I_def pv_def)
  next
    case (Inl a)
    obtain e l where a: "a = (e, l)" by (cases a)
    with fin Inl obtain k where k: "k < length js" "Q (take (Suc k) js) e l" by auto
    then have q: "map call_load (solves l) = map (\<lambda>i. Pressure (pv i)) (take (Suc k) js)"
      by (simp add: Q_def)
    then have "length (solves l) = Suc k" using k(1) by (metis length_map length_take min.absorb2 Suc_leI)
    then show ?thesis using Inl a q by (simp add: pv_def)
  qed
qed

text \<open>
  C8, as the code has it. The value assigned to the local \<open>total_pressure\<close> has no effect
  on what \<open>refine_benchmark\<close> returns or on the solver calls it makes. With the global
  \<open>total_force\<close> defined, the pressure passed to the solver in step \<open>i\<close> is the double
  \<open>(total_force / 10) * i\<close>, the quotient rounded and then the product rounded, for every
  step that is reached; whenever the function returns, for any mesh resolution, the
  pressures it returns are 0 followed by exactly the ten pressures the solver was called
  with. With the global undefined, and the two exercise cells returning an energy, it
  raises NameError. When \<open>def_grad\<close> or \<open>W_guccione\<close> raises, as the shipped
  \<open>W_guccione\<close> does, that exception is what the function raises, before any solver call.
\<close>

theorem refine_benchmark_reads_total_force:
  "refine_benchmark_with tp fe ex g nx ny nz = refine_benchmark fe ex g nx ny nz \<and>
   refine_benchmark_calls_with tp fe ex g nx ny nz = refine_benchmark_calls fe ex g nx ny nz \<and>
   map call_load (refine_benchmark_calls fe ex (Some tf) nx ny nz) =
     map (\<lambda>i. Pressure (fl_mul (fl_div tf 10) (fl_of_int i)))
       (take (length (refine_benchmark_calls fe ex (Some tf) nx ny nz)) [1..10]) \<and>
   (refine_benchmark fe ex (Some tf) nx ny nz = Inr (d, ps) \<longrightarrow>
      ps = [0, fl_mul (fl_div tf 10) 1, fl_mul (fl_div tf 10) 2, fl_mul (fl_div tf 10) 3,
            fl_mul (fl_div tf 10) 4, fl_mul (fl_div tf 10) 5, fl_mul (fl_div tf 10) 6,
            fl_mul (fl_div tf 10) 7, fl_mul (fl_div tf 10) 8, fl_mul (fl_div tf 10) 9,
            fl_mul (fl_div tf 10) 10] \<and>
      map call_load (refine_benchmark_calls fe ex (Some tf) nx ny nz) =
        map Pressure (tl ps)) \<and>
   (def_grad ex (map (\<lambda>_. 0)
        (tabulate_dof_coordinates (VectorFunctionSpace fe (BoxMesh_create fe nx ny nz)))) = Inr F \<longrightarrow>
    W_guccione ex F = Inr W \<longrightarrow>
      refine_benchmark fe ex None nx ny nz = Inl NameError) \<and>
   (def_grad ex (map (\<lambda>_. 0)
        (tabulate_dof_coordinates (VectorFunctionSpace fe (BoxMesh_create fe nx ny nz)))) = Inl e \<longrightarrow>
      refine_benchmark fe ex g nx ny nz = Inl e \<and>
      refine_benchmark_calls fe ex g nx ny nz = []) \<and>
   (def_grad ex (map (\<lambda>_. 0)
        (tabulate_dof_coordinates (VectorFunctionSpace fe (BoxMesh_create fe nx ny nz)))) = Inr F \<longrightarrow>
    W_guccione ex F = Inl e \<longrightarrow>
      refine_benchmark fe ex g nx ny nz = Inl e \<and>
      refine_benchmark_calls fe ex g nx ny nz = [])"
proof -
  let ?m = "BoxMesh_create fe nx ny nz"
  let ?V = "VectorFunctionSpace fe ?m"
  let ?u0 = "map (\<lambda>_. 0::real) (tabulate_dof_coordinates ?V)"
  let ?l0 = "\<lparr>pressure_local = 0, u_local = ?u0, pressures = [], disp = [], solves = []\<rparr>"
  let ?l1 = "?l0\<lparr>pressures := [0], disp := [0]\<rparr>"
  let ?run = "refine_benchmark_run (double_round 0.004) fe ex (Some tf) nx ny nz"
  let ?calls = "refine_benchmark_calls fe ex (Some tf) nx ny nz"
  have a: "refine_benchmark_with tp fe ex g nx ny nz = refine_benchmark fe ex g nx ny nz"
    by (simp add: refine_benchmark_def refine_benchmark_with_def refine_benchmark_run_def)
  have b: "refine_benchmark_calls_with tp fe ex g nx ny nz = refine_benchmark_calls fe ex g nx ny nz"
    by (simp add: refine_benchmark_calls_def refine_benchmark_calls_with_def refine_benchmark_run_def)
  have ten: "(of_int 10 :: real) = 10" by simp
  have sched: "map (\<lambda>i. Pressure (fl_mul (fl_div tf 10) (fl_of_int (i + 1)))) (take k (py_range 10)) =
           map (\<lambda>i. Pressure (fl_mul (fl_div tf 10) (fl_of_int i))) (take k [1..10])" for k
    using map_succ_py_range[of "\<lambda>i. Pressure (fl_mul (fl_div tf 10) (fl_of_int i))" 10]
    by (metis take_map)
  have run_cases:
    "(\<exists>e. ?run = Inl (e, ?l0)) \<or>
     (\<exists>W. ?run = for_loop (refine_step fe ?m ?V W (Some tf) 10) (py_range 10) ?l1)"
    by (auto simp: refine_benchmark_run_def Let_def split: sum.splits)
  have c: "map call_load ?calls =
     map (\<lambda>i. Pressure (fl_mul (fl_div tf 10) (fl_of_int i))) (take (length ?calls) [1..10])"
  proof -
    from run_cases show ?thesis
    proof
      assume "\<exists>e. ?run = Inl (e, ?l0)"
      then show ?thesis by (auto simp: refine_benchmark_calls_def refine_benchmark_calls_with_def)
    next
      assume "\<exists>W. ?run = for_loop (refine_step fe ?m ?V W (Some tf) 10) (py_range 10) ?l1"
      then obtain W where r: "?run = for_loop (refine_step fe ?m ?V W (Some tf) 10) (py_range 10) ?l1"
        by blast
      have "solves ?l1 = []" by simp
      from refine_loop_summary[OF r this] show ?thesis
        using sched by (simp add: refine_benchmark_calls_def refine_benchmark_calls_with_def)
    qed
  qed
  have d: "ps = [0, fl_mul (fl_div tf 10) 1, fl_mul (fl_div tf 10) 2, fl_mul (fl_div tf 10) 3,
            fl_mul (fl_div tf 10) 4, fl_mul (fl_div tf 10) 5, fl_mul (fl_div tf 10) 6,
            fl_mul (fl_div tf 10) 7, fl_mul (fl_div tf 10) 8, fl_mul (fl_div tf 10) 9,
            fl_mul (fl_div tf 10) 10] \<and>
      map call_load ?calls = map Pressure (tl ps)"
    if ret: "refine_benchmark fe ex (Some tf) nx ny nz = Inr (d, ps)"
  proof -
    from ret obtain l where l: "?run = Inr l" and ps: "ps = pressures l"
      by (auto simp: refine_benchmark_def refine_benchmark_with_def split: sum.splits prod.splits)
    from run_cases l obtain W where
      r: "?run = for_loop (refine_step fe ?m ?V W (Some tf) 10) (py_range 10) ?l1"
      by auto
    have "solves ?l1 = []" by simp
    from refine_loop_summary[OF r this] l have
      p: "pressures l = [0] @ map (\<lambda>i. fl_mul (fl_div tf 10) (fl_of_int (i + 1))) (py_range 10)"
      and n: "length (solves l) = 10"
      by (simp_all add: length_py_range)
    have p': "ps = [0, fl_mul (fl_div tf 10) 1, fl_mul (fl_div tf 10) 2, fl_mul (fl_div tf 10) 3,
            fl_mul (fl_div tf 10) 4, fl_mul (fl_div tf 10) 5, fl_mul (fl_div tf 10) 6,
            fl_mul (fl_div tf 10) 7, fl_mul (fl_div tf 10) 8, fl_mul (fl_div tf 10) 9,
            fl_mul (fl_div tf 10) 10]"
      using p ps by (simp add: py_range_10)
    have "length ?calls = 10" using n l by (simp add: refine_benchmark_calls_def refine_benchmark_calls_with_def)
    then have "map call_load ?calls =
        map (\<lambda>i. Pressure (fl_mul (fl_div tf 10) (fl_of_int i))) [1..10]"
      using c by (simp add: upto_rec1)
    then have "map call_load ?calls = map Pressure (tl ps)"
      unfolding p' by (simp add: upto_rec1)
    then show ?thesis using p' by simp
  qed
  have e1: "refine_benchmark fe ex None nx ny nz = Inl NameError"
    if "def_grad ex ?u0 = Inr F" "W_guccione ex F = Inr W"
    using that
    by (simp add: refine_benchmark_def refine_benchmark_with_def refine_benchmark_run_def
        Let_def refine_step_def py_range_10)
  have e2: "refine_benchmark fe ex g nx ny nz = Inl e \<and>
      refine_benchmark_calls fe ex g nx ny nz = []" if "def_grad ex ?u0 = Inl e"
    using that
    by (simp add: refine_benchmark_def refine_benchmark_with_def refine_benchmark_calls_def refine_benchmark_calls_with_def
        refine_benchmark_run_def Let_def)
  have e3: "refine_benchmark fe ex g nx ny nz = Inl e \<and>
      refine_benchmark_calls fe ex g nx ny nz = []"
    if "def_grad ex ?u0 = Inr F" "W_guccione ex F = Inl e"
    using that
    by (simp add: refine_benchmark_def refine_benchmark_with_def refine_benchmark_calls_def refine_benchmark_calls_with_def
        refine_benchmark_run_def Let_def)
  show ?thesis using a b c d e1 e2 e3 by blast
qed

section \<open>The theorems at the concrete instances\<close>

lemma demo_dofs3:
  "tabulate_dof_coordinates demo_V =
     [(7, 4.5, 1), (7, 4.5, 1), (7, 4.5, 1), (10, 0.5, 1), (10, 0.5, 1), (10, 0.5, 1)]"
  by (simp add: demo_V_def demo_space_def eval_nat_numeral)

lemma demo_run_2:
  "load_stepping demo_fe 2 2 demo_nb =
     Inr \<lparr>mesh = (), V = demo_V, Z = demo_Z, material = (),
          r = (2, 0, 0), pressure = 7, u = [3, 3, 3, 3, 3, 3],
          disp_neo = [0, 1, 2], stress_neo = [0, 12, 36],
          total_force = None, stdout = [(1, 2, 1), (2, 2, 2)],
          solver_calls =
            [(Displacement (1, 0, 0), [0, 0, 0, 0, 0, 0], Converged [1, 1, 1, 1, 1, 1]),
             (Displacement (2, 0, 0), [1, 1, 1, 1, 1, 1], Converged [3, 3, 3, 3, 3, 3])]\<rparr>"
  by (simp add: load_stepping_def py_range_2 neo_step_def call_solve_def print_step_def
      demo_fe_def demo_nb_def demo_get_stress Let_def fl_defs)

lemma demo_run_limited:
  "load_stepping demo_fe_limited 4 4 demo_nb =
     Inl (RuntimeError,
       \<lparr>mesh = (), V = demo_V, Z = demo_Z, material = (),
        r = (3, 0, 0), pressure = 7, u = [2, 2, 2, 2, 2, 2],
        disp_neo = [0, 1, 2], stress_neo = [0, 12, 36],
        total_force = None, stdout = [(1, 4, 1), (2, 4, 2), (3, 4, 3)],
        solver_calls =
          [(Displacement (1, 0, 0), [0, 0, 0, 0, 0, 0], Converged [1, 1, 1, 1, 1, 1]),
           (Displacement (2, 0, 0), [1, 1, 1, 1, 1, 1], Converged [3, 3, 3, 3, 3, 3]),
           (Displacement (3, 0, 0), [3, 3, 3, 3, 3, 3], NotConverged [2, 2, 2, 2, 2, 2])]\<rparr>)"
  by (simp add: load_stepping_def py_range_4 neo_step_def call_solve_def print_step_def
      demo_fe_def demo_fe_limited_def demo_nb_def demo_get_stress Let_def fl_defs)

lemma demo_run_negative_load:
  "load_stepping demo_fe 2 (- 2) demo_nb =
     Inr \<lparr>mesh = (), V = demo_V, Z = demo_Z, material = (),
          r = (- 2, 0, 0), pressure = 7, u = [- 3, - 3, - 3, - 3, - 3, - 3],
          disp_neo = [0, - 1, - 2], stress_neo = [0, - 12, - 36],
          total_force = None, stdout = [(1, 2, - 1), (2, 2, - 2)],
          solver_calls =
            [(Displacement (- 1, 0, 0), [0, 0, 0, 0, 0, 0],
              Converged [- 1, - 1, - 1, - 1, - 1, - 1]),
             (Displacement (- 2, 0, 0), [- 1, - 1, - 1, - 1, - 1, - 1],
              Converged [- 3, - 3, - 3, - 3, - 3, - 3])]\<rparr>"
  by (simp add: load_stepping_def py_range_2 neo_step_def call_solve_def print_step_def
      demo_fe_def demo_nb_def demo_get_stress Let_def fl_defs)

lemma demo_nb_calls: "solver_calls demo_nb = []"
  by (simp add: demo_nb_def)


text \<open>With the target load \<open>- 2\<close> and two steps the cell finishes, and the loads it visits
  and records go down, not up.\<close>

theorem load_stepping_negative_load_counterexample:
  "\<not> isl (load_stepping demo_fe 2 (- 2) demo_nb) \<and>
   map call_load (new_calls demo_nb (load_stepping demo_fe 2 (- 2) demo_nb)) =
     [Displacement (- 1, 0, 0), Displacement (- 2, 0, 0)] \<and>
   disp_neo (final (load_stepping demo_fe 2 (- 2) demo_nb)) = [0, - 1, - 2] \<and>
   \<not> sorted_wrt (<) (tl (disp_neo (final (load_stepping demo_fe 2 (- 2) demo_nb))))"
  by (simp add: demo_run_negative_load new_calls_def call_load_def demo_nb_calls)

theorem load_stepping_visits_schedule_witness:
  "\<exists>t. load_stepping demo_fe 2 2 demo_nb = Inr t \<and>
      map call_load (new_calls demo_nb (Inr t)) = [Displacement (1, 0, 0), Displacement (2, 0, 0)] \<and>
      map call_result (new_calls demo_nb (Inr t)) =
        [Converged [1, 1, 1, 1, 1, 1], Converged [3, 3, 3, 3, 3, 3]] \<and>
      disp_neo t = [0, 1, 2] \<and> stress_neo t = [0, 12, 36] \<and>
      map Inr (tl (stress_neo t)) =
        map (\<lambda>c. get_stress (Z demo_nb)
                   (project demo_fe (mesh demo_nb) (Z demo_nb) (material demo_nb)
                      (result_field (call_result c)))
                   (5, 0.5, 0.5) 0)
          (new_calls demo_nb (Inr t))"
proof -
  note t = load_stepping_visits_schedule[OF demo_run_2]
  have c: "map call_result (new_calls demo_nb (load_stepping demo_fe 2 2 demo_nb)) =
        [Converged [1, 1, 1, 1, 1, 1], Converged [3, 3, 3, 3, 3, 3]]"
    by (simp add: demo_run_2 new_calls_def demo_nb_calls call_result_def)
  have e: "[1..2::int] = [1, 2]" by (simp add: upto_rec1)
  show ?thesis
    apply (rule exI, rule conjI, rule demo_run_2)
    using t c by (simp add: e demo_run_2)
qed

theorem load_stepping_warm_start_witness:
  "Suc 0 < length (new_calls demo_nb (load_stepping demo_fe 2 2 demo_nb)) \<and>
   call_result (new_calls demo_nb (load_stepping demo_fe 2 2 demo_nb) ! 0) =
     Converged (call_guess (new_calls demo_nb (load_stepping demo_fe 2 2 demo_nb) ! Suc 0)) \<and>
   call_guess (new_calls demo_nb (load_stepping demo_fe 2 2 demo_nb) ! Suc 0) = [1, 1, 1, 1, 1, 1]"
proof -
  have h: "Suc 0 < length (new_calls demo_nb (load_stepping demo_fe 2 2 demo_nb))"
    by (simp add: demo_run_2 new_calls_def demo_nb_calls)
  have g: "call_guess (new_calls demo_nb (load_stepping demo_fe 2 2 demo_nb) ! Suc 0) = [1, 1, 1, 1, 1, 1]"
    by (simp add: demo_run_2 new_calls_def demo_nb_calls call_guess_def)
  from load_stepping_warm_start[OF h] h g show ?thesis by blast
qed

theorem load_stepping_failure_is_fatal_witness:
  "2 < length (new_calls demo_nb (load_stepping demo_fe_limited 4 4 demo_nb)) \<and>
   \<not> has_converged (call_result (new_calls demo_nb (load_stepping demo_fe_limited 4 4 demo_nb) ! 2)) \<and>
   (\<exists>t. load_stepping demo_fe_limited 4 4 demo_nb = Inl (RuntimeError, t) \<and>
        length (new_calls demo_nb (load_stepping demo_fe_limited 4 4 demo_nb)) = 3 \<and>
        length (stress_neo t) = 3)"
proof -
  have h: "2 < length (new_calls demo_nb (load_stepping demo_fe_limited 4 4 demo_nb))"
    by (simp add: demo_run_limited new_calls_def demo_nb_calls)
  have g: "\<not> has_converged (call_result (new_calls demo_nb (load_stepping demo_fe_limited 4 4 demo_nb) ! 2))"
    by (simp add: demo_run_limited new_calls_def demo_nb_calls call_result_def)
  from load_stepping_failure_is_fatal[OF h g] h g show ?thesis by auto
qed

theorem load_stepping_deterministic_witness:
  "u (final (load_stepping demo_fe 2 2
        (demo_nb\<lparr>r := (10, 0, 0), u := [9, 9, 9, 9, 9, 9], disp_neo := [5], stress_neo := [7, 7]\<rparr>)))
     = u (final (load_stepping demo_fe 2 2 demo_nb)) \<and>
   disp_neo (final (load_stepping demo_fe 2 2
        (demo_nb\<lparr>r := (10, 0, 0), u := [9, 9, 9, 9, 9, 9], disp_neo := [5], stress_neo := [7, 7]\<rparr>)))
     = [0, 1, 2] \<and>
   stress_neo (final (load_stepping demo_fe 2 2
        (demo_nb\<lparr>r := (10, 0, 0), u := [9, 9, 9, 9, 9, 9], disp_neo := [5], stress_neo := [7, 7]\<rparr>)))
     = [0, 12, 36]"
proof -
  let ?s = "demo_nb\<lparr>r := (10, 0, 0), u := [9, 9, 9, 9, 9, 9], disp_neo := [5], stress_neo := [7, 7]\<rparr>"
  have n: "(2::int) \<noteq> 0" by simp
  have a: "mesh ?s = mesh demo_nb" "V ?s = V demo_nb" "Z ?s = Z demo_nb"
    "material ?s = material demo_nb" by simp_all
  have l: "length (u ?s) = length (u demo_nb)" by (simp add: demo_nb_def)
  from load_stepping_deterministic[OF n a l, of demo_fe 2]
  show ?thesis by (simp add: demo_run_2)
qed

text \<open>With \<open>n_steps = - 1\<close> the cell raises nothing and leaves the one-point lists.\<close>

theorem load_stepping_negative_steps_counterexample:
  "\<not> isl (load_stepping demo_fe (- 1) 10 demo_nb) \<and>
   disp_neo (final (load_stepping demo_fe (- 1) 10 demo_nb)) = [0] \<and>
   stress_neo (final (load_stepping demo_fe (- 1) 10 demo_nb)) = [0] \<and>
   new_calls demo_nb (load_stepping demo_fe (- 1) 10 demo_nb) = []"
  by (simp add: load_stepping_def py_range_neg demo_nb_def new_calls_def Let_def)

theorem load_stepping_zero_and_negative_witness:
  "(- 3 :: int) < 0 \<and>
   load_stepping demo_fe 0 10 demo_nb =
     Inl (ZeroDivisionError, demo_nb\<lparr>u := [0, 0, 0, 0, 0, 0]\<rparr>) \<and>
   load_stepping demo_fe (- 3) 10 demo_nb =
     Inr (demo_nb\<lparr>u := [0, 0, 0, 0, 0, 0], disp_neo := [0], stress_neo := [0]\<rparr>)"
proof -
  have h: "(- 3 :: int) < 0" by simp
  have z: "map (\<lambda>_. 0::real) (u demo_nb) = [0, 0, 0, 0, 0, 0]" by (simp add: demo_nb_def)
  from load_stepping_zero_and_negative[of demo_fe 10 demo_nb "- 3"] h z
  show ?thesis by simp
qed


lemma demo_refine_20:
  "refine_benchmark_run tp demo_fe demo_ex (Some 20) 20 2 2 =
     Inr \<lparr>pressure_local = 20, u_local = [120, 120, 120, 120, 120, 120],
          pressures = [0, 2, 4, 6, 8, 10, 12, 14, 16, 18, 20],
          disp = [0, 3, 8, 15, 24, 35, 48, 63, 80, 99, 120],
          solves =
            [(Pressure 2, [0, 0, 0, 0, 0, 0], Converged [3, 3, 3, 3, 3, 3]),
             (Pressure 4, [3, 3, 3, 3, 3, 3], Converged [8, 8, 8, 8, 8, 8]),
             (Pressure 6, [8, 8, 8, 8, 8, 8], Converged [15, 15, 15, 15, 15, 15]),
             (Pressure 8, [15, 15, 15, 15, 15, 15], Converged [24, 24, 24, 24, 24, 24]),
             (Pressure 10, [24, 24, 24, 24, 24, 24], Converged [35, 35, 35, 35, 35, 35]),
             (Pressure 12, [35, 35, 35, 35, 35, 35], Converged [48, 48, 48, 48, 48, 48]),
             (Pressure 14, [48, 48, 48, 48, 48, 48], Converged [63, 63, 63, 63, 63, 63]),
             (Pressure 16, [63, 63, 63, 63, 63, 63], Converged [80, 80, 80, 80, 80, 80]),
             (Pressure 18, [80, 80, 80, 80, 80, 80], Converged [99, 99, 99, 99, 99, 99]),
             (Pressure 20, [99, 99, 99, 99, 99, 99],
              Converged [120, 120, 120, 120, 120, 120])]\<rparr>"
  by (simp add: refine_benchmark_run_def py_range_10 refine_step_def
        demo_fe_def demo_ex_def demo_dofs3 demo_get_disp Let_def fl_defs)

theorem refine_benchmark_reads_total_force_witness:
  "refine_benchmark demo_fe demo_ex (Some 20) 20 2 2 =
     Inr ([0, 3, 8, 15, 24, 35, 48, 63, 80, 99, 120], [0, 2, 4, 6, 8, 10, 12, 14, 16, 18, 20]) \<and>
   map call_load (refine_benchmark_calls demo_fe demo_ex (Some 20) 20 2 2) =
     map Pressure [2, 4, 6, 8, 10, 12, 14, 16, 18, 20] \<and>
   refine_benchmark_with 1 demo_fe demo_ex (Some 20) 20 2 2 =
     refine_benchmark demo_fe demo_ex (Some 20) 20 2 2 \<and>
   refine_benchmark demo_fe demo_ex None 20 2 2 = Inl NameError \<and>
   refine_benchmark demo_fe demo_ex_raising (Some 20) 20 2 2 = Inl ValueError \<and>
   refine_benchmark_calls demo_fe demo_ex_raising (Some 20) 20 2 2 = []"
proof -
  have r: "refine_benchmark demo_fe demo_ex (Some 20) 20 2 2 =
     Inr ([0, 3, 8, 15, 24, 35, 48, 63, 80, 99, 120], [0, 2, 4, 6, 8, 10, 12, 14, 16, 18, 20])"
    by (simp add: refine_benchmark_def refine_benchmark_with_def demo_refine_20)
  have g: "def_grad demo_ex (map (\<lambda>_. 0)
        (tabulate_dof_coordinates (VectorFunctionSpace demo_fe (BoxMesh_create demo_fe 20 2 2)))) = Inr ()"
    by (simp add: demo_ex_def)
  have w: "W_guccione demo_ex () = Inr ()" by (simp add: demo_ex_def)
  note t = refine_benchmark_reads_total_force[where tp = 1 and fe = demo_fe and ex = demo_ex
      and g = "Some 20" and nx = 20 and ny = 2 and nz = 2 and tf = 20
      and d = "[0, 3, 8, 15, 24, 35, 48, 63, 80, 99, 120]"
      and ps = "[0, 2, 4, 6, 8, 10, 12, 14, 16, 18, 20]" and F = "()" and W = "()"]
  from t r have c: "map call_load (refine_benchmark_calls demo_fe demo_ex (Some 20) 20 2 2) =
     map Pressure (tl [0, 2, 4, 6, 8, 10, 12, 14, 16, 18, 20])" by blast
  from t have a: "refine_benchmark_with 1 demo_fe demo_ex (Some 20) 20 2 2 =
     refine_benchmark demo_fe demo_ex (Some 20) 20 2 2" by blast
  from t g w have n: "refine_benchmark demo_fe demo_ex None 20 2 2 = Inl NameError" by blast
  have g': "def_grad demo_ex_raising (map (\<lambda>_. 0)
        (tabulate_dof_coordinates (VectorFunctionSpace demo_fe (BoxMesh_create demo_fe 20 2 2)))) = Inr ()"
    by (simp add: demo_ex_raising_def)
  have w': "W_guccione demo_ex_raising () = Inl ValueError" by (simp add: demo_ex_raising_def)
  note t' = refine_benchmark_reads_total_force[where tp = 1 and fe = demo_fe
      and ex = demo_ex_raising and g = "Some 20" and nx = 20 and ny = 2 and nz = 2 and tf = 20
      and F = "()" and e = ValueError]
  from t' g' w' have x: "refine_benchmark demo_fe demo_ex_raising (Some 20) 20 2 2 = Inl ValueError \<and>
      refine_benchmark_calls demo_fe demo_ex_raising (Some 20) 20 2 2 = []" by blast
  show ?thesis using r c a n x by simp
qed

lemma tenth_double: "fl_div 1 10 = 3602879701896397 / 36028797018963968"
proof -
  have "double_round (1 / 10) =
          of_int (round_half_even ((1 / 10) / 2 powi (- 4 - 52))) * 2 powi (- 4 - 52)"
    by (rule double_round_eval) simp_all
  also have "\<dots> = 3602879701896397 / 36028797018963968"
    by (simp add: round_half_even_def Let_def)
  finally show ?thesis by (simp add: fl_div_def)
qed

lemma three_tenths_as_computed:
  "fl_mul (fl_div 1 10) 3 = 5404319552844596 / 18014398509481984"
proof -
  have "double_round (10808639105689191 / 36028797018963968) =
          of_int (round_half_even ((10808639105689191 / 36028797018963968) / 2 powi (- 2 - 52)))
            * 2 powi (- 2 - 52)"
    by (rule double_round_eval) simp_all
  also have "\<dots> = 5404319552844596 / 18014398509481984"
    by (simp add: round_half_even_def Let_def)
  finally show ?thesis by (simp add: fl_mul_def tenth_double)
qed

lemma three_tenths_as_claimed:
  "fl_div (fl_mul 1 3) 10 = 5404319552844595 / 18014398509481984"
proof -
  have "double_round (3 / 10) =
          of_int (round_half_even ((3 / 10) / 2 powi (- 2 - 52))) * 2 powi (- 2 - 52)"
    by (rule double_round_eval) simp_all
  also have "\<dots> = 5404319552844595 / 18014398509481984"
    by (simp add: round_half_even_def Let_def)
  finally show ?thesis by (simp add: fl_mul_def fl_div_def)
qed

text \<open>With \<open>total_force = 1\<close> the function returns, and its fourth pressure is the double
  \<open>0.30000000000000004\<close> that \<open>1 / 10 * 3\<close> gives, not the double \<open>0.3\<close> of \<open>1 * 3 / 10\<close>.\<close>

theorem refine_benchmark_rounding_counterexample:
  "\<not> isl (refine_benchmark demo_fe demo_ex (Some 1) 20 2 2) \<and>
   snd (projr (refine_benchmark demo_fe demo_ex (Some 1) 20 2 2)) ! 3 =
     5404319552844596 / 18014398509481984 \<and>
   fl_div (fl_mul 1 3) 10 = 5404319552844595 / 18014398509481984 \<and>
   snd (projr (refine_benchmark demo_fe demo_ex (Some 1) 20 2 2)) ! 3 \<noteq> 1 * 3 / 10"
proof -
  have p: "\<not> isl (refine_benchmark demo_fe demo_ex (Some 1) 20 2 2) \<and>
    snd (projr (refine_benchmark demo_fe demo_ex (Some 1) 20 2 2)) ! 3 = fl_mul (fl_div 1 10) 3"
    by (simp add: refine_benchmark_def refine_benchmark_with_def refine_benchmark_run_def
        py_range_10 refine_step_def demo_fe_def demo_ex_def demo_dofs3 demo_get_disp Let_def)
  show ?thesis
    using p three_tenths_as_claimed by (simp add: three_tenths_as_computed)
qed

end
